theory Spec2Isabelle
  imports Complex_Main
begin

section \<open>The light map system of the dungeon generator\<close>

text \<open>
  This theory embeds \<^verbatim>\<open>src/lib/gameobjects/systems/lightmap.js\<close>: the recursive
  shadow casting scan (\<^verbatim>\<open>calculateOctant\<close>), the tile buffer (\<^verbatim>\<open>clear\<close>,
  \<^verbatim>\<open>calculate\<close>), the write back into the map (\<^verbatim>\<open>handleSingleEntity\<close>) and the
  tick (\<^verbatim>\<open>update\<close>).

  Numbers. Tile coordinates, the row counter \<^verbatim>\<open>i\<close> and the offsets \<^verbatim>\<open>dx\<close>, \<^verbatim>\<open>dy\<close> are
  JavaScript numbers holding integers and are modelled as \<open>int\<close>. The radius, the slopes
  and the light levels are JavaScript doubles; they are modelled as exact rationals
  (\<open>rat\<close>), so the rounding of a double division is not part of the model. A slope is a
  quotient of two half-integers, which are exact doubles, and the division of doubles is
  correctly rounded: equal quotients are equal doubles, and the comparisons of the scan
  agree with the exact ones as long as distinct quotients stay distinct doubles.

  Objects. The entries of \<^verbatim>\<open>this.tiles\<close> are object literals created by the scan; they are
  never the tile objects of \<^verbatim>\<open>game.map.tiles\<close>. The only mutation of an entry is the
  zeroing in \<^verbatim>\<open>clear\<close>, and an entry is read only after that, so lists of values model
  the buffer faithfully. Each cell of the grid is its own tile object.
\<close>

subsection \<open>Data\<close>

text \<open>
  Names. The fields \<^verbatim>\<open>x\<close> and \<^verbatim>\<open>y\<close> are \<open>vx\<close> and \<open>vy\<close> in a position and \<open>lx\<close> and \<open>ly\<close> in
  an entry of the buffer, whose \<^verbatim>\<open>lightLevel\<close> is \<open>level\<close>; \<^verbatim>\<open>this.game\<close> is \<open>lm_game\<close> and
  \<^verbatim>\<open>game.map.tiles\<close> is \<open>map_tiles\<close>. Every other name is the one of the source.
\<close>

text \<open>A tile of the map grid: the three fields the system reads or writes.\<close>

record tile =
  blockLight :: bool
  lightLevel :: rat
  explored :: bool

text \<open>The \<^verbatim>\<open>lightSource\<close> component and the \<^verbatim>\<open>position\<close> (a \<^verbatim>\<open>Vector2\<close>).\<close>

record lightsource =
  radius :: rat
  gradient :: bool

record vector2 =
  vx :: int
  vy :: int

text \<open>An entity returned by \<^verbatim>\<open>getEntities("lightSource", "position")\<close> has both components.\<close>

record entity =
  lightSourceComponent :: lightsource
  positionComponent :: vector2

text \<open>An entry \<^verbatim>\<open>{x, y, lightLevel}\<close> of the buffer \<^verbatim>\<open>this.tiles\<close>.\<close>

record lit =
  lx :: int
  ly :: int
  level :: rat

text \<open>
  The game as far as the system sees it: \<^verbatim>\<open>game.isActive\<close>, \<^verbatim>\<open>game.map.settings.tilesX\<close>,
  \<^verbatim>\<open>tilesY\<close>, the grid \<^verbatim>\<open>game.map.tiles[x][y]\<close> (a list of columns) and the entities with a
  light source and a position, in the order \<^verbatim>\<open>getEntities\<close> returns them.
\<close>

record game =
  isActive :: bool
  tilesX :: int
  tilesY :: int
  map_tiles :: "tile list list"
  entities :: "entity list"

text \<open>The \<^verbatim>\<open>LightMap\<close> object: \<^verbatim>\<open>this.game\<close>, \<^verbatim>\<open>this.mapSize\<close>, \<^verbatim>\<open>this.tiles\<close>, \<^verbatim>\<open>this.tilesLit\<close>.\<close>

record lightmap =
  lm_game :: game
  mapSize :: vector2
  tiles :: "lit list"
  tilesLit :: bool

text \<open>Reading a property of \<^verbatim>\<open>undefined\<close> throws a \<^verbatim>\<open>TypeError\<close>.\<close>

datatype error = TypeError

text \<open>The constructor.\<close>

definition LightMap :: "game \<Rightarrow> lightmap" where
  "LightMap g = \<lparr> lm_game = g, mapSize = \<lparr> vx = tilesX g, vy = tilesY g \<rparr>,
                  tiles = [], tilesLit = False \<rparr>"

text \<open>\<^verbatim>\<open>this.mult\<close>: four rows of eight multipliers; column \<open>i\<close> is octant \<open>i\<close>.\<close>

definition mult :: "int list list" where
  "mult = [[1, 0, 0, -1, -1, 0, 0, 1],
           [0, 1, -1, 0, 0, -1, 1, 0],
           [0, 1, 1, 0, 0, -1, -1, 0],
           [1, 0, 0, 1, -1, 0, 0, -1]]"

subsection \<open>Access to the grid\<close>

text \<open>
  \<^verbatim>\<open>tiles[x][y]\<close>: an index outside an array gives \<^verbatim>\<open>undefined\<close>, and the property access
  that follows throws. \<open>tile_at\<close> is \<open>None\<close> exactly there.
\<close>

definition tile_at :: "tile list list \<Rightarrow> int \<Rightarrow> int \<Rightarrow> tile option" where
  "tile_at ts x y =
     (if 0 \<le> x \<and> x < int (length ts) then
        (if 0 \<le> y \<and> y < int (length (ts ! nat x)) then Some (ts ! nat x ! nat y) else None)
      else None)"

definition doesTileBlock :: "lightmap \<Rightarrow> int \<Rightarrow> int \<Rightarrow> error + bool" where
  "doesTileBlock this x y =
     (case tile_at (map_tiles (lm_game this)) x y of
        None \<Rightarrow> Inl TypeError
      | Some t \<Rightarrow> Inr (blockLight t))"

text \<open>
  The two assignments of the write back loop,
  \<^verbatim>\<open>tiles[x][y].lightLevel = v; tiles[x][y].explored = true\<close>.
\<close>

definition write_tile :: "tile list list \<Rightarrow> int \<Rightarrow> int \<Rightarrow> rat \<Rightarrow> error + tile list list" where
  "write_tile ts x y v =
     (case tile_at ts x y of
        None \<Rightarrow> Inl TypeError
      | Some t \<Rightarrow> Inr (ts[nat x := (ts ! nat x)[nat y := t\<lparr> lightLevel := v, explored := True \<rparr>]]))"

subsection \<open>The scan of one octant\<close>

text \<open>
  \<open>pushes this.tiles\<close>: a scan only ever appends to the buffer and never reads it, so each
  function below returns the entries it pushes, in push order, or the error that stopped it.
  \<open>then_push ts r\<close> is "push \<open>ts\<close>, then go on with \<open>r\<close>".
\<close>

definition then_push :: "lit list \<Rightarrow> error + lit list \<Rightarrow> error + lit list" where
  "then_push ts r = (case r of Inl e \<Rightarrow> Inl e | Inr us \<Rightarrow> Inr (ts @ us))"

text \<open>
  \<^verbatim>\<open>calculateOctant\<close> is the function of the source. Its \<^verbatim>\<open>for\<close> loop over the rows is
  \<open>octant_rows\<close> (at the loop test, with the current \<^verbatim>\<open>i\<close>, \<^verbatim>\<open>start\<close> and \<^verbatim>\<open>newStart\<close>), its
  \<^verbatim>\<open>while\<close> loop over one row is \<open>octant_cols\<close> (at the loop test, with the current \<^verbatim>\<open>dx\<close>
  and \<^verbatim>\<open>blocked\<close>), and \<open>octant_row_end\<close> is the code after the \<^verbatim>\<open>while\<close> loop, where both its
  normal exit and \<^verbatim>\<open>break\<close> arrive; \<^verbatim>\<open>continue\<close> is a call of \<open>octant_cols\<close>.
  The parameter \<^verbatim>\<open>id\<close> of the source is \<open>idn\<close> here; it is passed on and never read.
\<close>

function calculateOctant ::
    "lightmap \<Rightarrow> vector2 \<Rightarrow> int \<Rightarrow> rat \<Rightarrow> rat \<Rightarrow> lightsource \<Rightarrow> int \<Rightarrow> int \<Rightarrow> int \<Rightarrow> int \<Rightarrow> int
      \<Rightarrow> error + lit list"
  and octant_rows ::
    "lightmap \<Rightarrow> vector2 \<Rightarrow> rat \<Rightarrow> lightsource \<Rightarrow> int \<Rightarrow> int \<Rightarrow> int \<Rightarrow> int \<Rightarrow> int
      \<Rightarrow> int \<Rightarrow> rat \<Rightarrow> rat \<Rightarrow> error + lit list"
  and octant_cols ::
    "lightmap \<Rightarrow> vector2 \<Rightarrow> rat \<Rightarrow> lightsource \<Rightarrow> int \<Rightarrow> int \<Rightarrow> int \<Rightarrow> int \<Rightarrow> int
      \<Rightarrow> int \<Rightarrow> int \<Rightarrow> rat \<Rightarrow> rat \<Rightarrow> bool \<Rightarrow> error + lit list"
  and octant_row_end ::
    "lightmap \<Rightarrow> vector2 \<Rightarrow> rat \<Rightarrow> lightsource \<Rightarrow> int \<Rightarrow> int \<Rightarrow> int \<Rightarrow> int \<Rightarrow> int
      \<Rightarrow> int \<Rightarrow> rat \<Rightarrow> rat \<Rightarrow> bool \<Rightarrow> error + lit list"
where
  "calculateOctant this position row start end lightsource xx xy yx yy idn =
     then_push [\<lparr> lx = vx position, ly = vy position, level = 0 \<rparr>]
       (if start < end then Inr []
        else octant_rows this position end lightsource xx xy yx yy idn row start 0)"
| "octant_rows this position end lightsource xx xy yx yy idn i start newStart =
     (if of_int i < radius lightsource + 1
      then octant_cols this position end lightsource xx xy yx yy idn i (- i - 1) start newStart False
      else Inr [])"
| "octant_cols this position end lightsource xx xy yx yy idn i dxb start newStart blocked =
     (if dxb \<le> 0 then
        (let dx = dxb + 1;
             dy = - i;
             X = vx position + dx * xx + dy * xy;
             Y = vy position + dx * yx + dy * yy
         in if X < vx (mapSize this) \<and> X \<ge> 0 \<and> Y < vy (mapSize this) \<and> Y \<ge> 0 then
              (let lSlope = (of_int dx - 1 / 2) / (of_int dy + 1 / 2);
                   rSlope = (of_int dx + 1 / 2) / (of_int dy - 1 / 2)
               in if start < rSlope then
                    octant_cols this position end lightsource xx xy yx yy idn i dx start newStart blocked
                  else if end > lSlope then
                    octant_row_end this position end lightsource xx xy yx yy idn i start newStart blocked
                  else
                    then_push
                      (if of_int (dx * dx + dy * dy) < radius lightsource * radius lightsource then
                         (let d = (X - vx position) * (X - vx position)
                                + (Y - vy position) * (Y - vy position)
                          in [\<lparr> lx = X, ly = Y,
                                level = (if gradient lightsource = False then 1
                                         else 1 - of_int d / (radius lightsource * radius lightsource)) \<rparr>])
                       else [])
                      (case doesTileBlock this X Y of
                         Inl e \<Rightarrow> Inl e
                       | Inr b \<Rightarrow>
                           if blocked then
                             (if b then
                                octant_cols this position end lightsource xx xy yx yy idn i dx
                                  start rSlope blocked
                              else
                                octant_cols this position end lightsource xx xy yx yy idn i dx
                                  newStart newStart False)
                           else
                             (if b \<and> of_int i < radius lightsource then
                                (case calculateOctant this position (i + 1) start lSlope lightsource
                                        xx xy yx yy (idn + 1) of
                                   Inl e \<Rightarrow> Inl e
                                 | Inr sub \<Rightarrow>
                                     then_push sub
                                       (octant_cols this position end lightsource xx xy yx yy idn i dx
                                          start rSlope True))
                              else
                                octant_cols this position end lightsource xx xy yx yy idn i dx
                                  start newStart blocked)))
            else octant_cols this position end lightsource xx xy yx yy idn i dx start newStart blocked)
      else octant_row_end this position end lightsource xx xy yx yy idn i start newStart blocked)"
| "octant_row_end this position end lightsource xx xy yx yy idn i start newStart blocked =
     (if blocked then Inr []
      else octant_rows this position end lightsource xx xy yx yy idn (i + 1) start newStart)"
  by pat_completeness auto
termination
proof (relation "inv_image (less_than <*lex*> less_than <*lex*> less_than)
    (\<lambda>a. case a of
       Inl (Inl (this, position, row, start, end, ls, r)) \<Rightarrow>
         (nat (\<lceil>radius ls\<rceil> + 2 - row), 1::nat, 0::nat)
     | Inl (Inr (this, position, end, ls, xx, xy, yx, yy, idn, i, r)) \<Rightarrow>
         (nat (\<lceil>radius ls\<rceil> + 2 - i), 0, 0)
     | Inr (Inl (this, position, end, ls, xx, xy, yx, yy, idn, i, dxb, r)) \<Rightarrow>
         (nat (\<lceil>radius ls\<rceil> + 1 - i), 3, nat (1 - dxb))
     | Inr (Inr (this, position, end, ls, xx, xy, yx, yy, idn, i, r)) \<Rightarrow>
         (nat (\<lceil>radius ls\<rceil> + 1 - i), 2, 0))", goal_cases)
  case 1
  show ?case by (intro wf_inv_image wf_lex_prod wf_less_than)
next
  case (3 _ _ _ lightsource _ _ _ _ _ i)
  have "rat_of_int i < rat_of_int \<lceil>radius lightsource\<rceil> + 1"
    using 3 le_of_int_ceiling [of "radius lightsource"] by linarith
  then have "i < \<lceil>radius lightsource\<rceil> + 1"
    by (metis of_int_1 of_int_add of_int_less_iff)
  then show ?case by simp
qed simp_all

subsection \<open>The buffer: \<^verbatim>\<open>clear\<close> and \<^verbatim>\<open>calculate\<close>\<close>

text \<open>
  \<^verbatim>\<open>clear\<close> sets the \<^verbatim>\<open>lightLevel\<close> of every entry of the buffer to 0, replaces the buffer by
  an empty one and returns the old, zeroed buffer. It touches no tile of the map. The
  result is the returned array and the object after the call.
\<close>

definition clear :: "lightmap \<Rightarrow> lit list \<times> lightmap" where
  "clear this = (map (\<lambda>t. t\<lparr> level := 0 \<rparr>) (tiles this), this\<lparr> tiles := [] \<rparr>)"

text \<open>The \<^verbatim>\<open>for\<close> loop of \<^verbatim>\<open>calculate\<close> over the eight octants, at its test with the current \<^verbatim>\<open>i\<close>.\<close>

function calculate_loop :: "lightmap \<Rightarrow> lightsource \<Rightarrow> vector2 \<Rightarrow> nat \<Rightarrow> error + lit list" where
  "calculate_loop this lightSource position i =
     (if i < 8 then
        (case calculateOctant this position 1 1 0 lightSource
                (mult ! 0 ! i) (mult ! 1 ! i) (mult ! 2 ! i) (mult ! 3 ! i) 0 of
           Inl e \<Rightarrow> Inl e
         | Inr ts \<Rightarrow> then_push ts (calculate_loop this lightSource position (i + 1)))
      else Inr [])"
  by pat_completeness auto
termination
  by (relation "measure (\<lambda>(this, lightSource, position, i). 8 - i)") auto

definition calculate :: "lightmap \<Rightarrow> lightsource \<Rightarrow> vector2 \<Rightarrow> error + lit list \<times> lightmap" where
  "calculate this lightSource position =
     (case calculate_loop this lightSource position 0 of
        Inl e \<Rightarrow> Inl e
      | Inr pushed \<Rightarrow>
          (let this' = this\<lparr> tiles := tiles this @ pushed
                               @ [\<lparr> lx = vx position, ly = vy position, level = 1 \<rparr>] \<rparr>
           in Inr (tiles this', this')))"

subsection \<open>The write back and the tick\<close>

text \<open>The loop of \<^verbatim>\<open>handleSingleEntity\<close> over \<^verbatim>\<open>newLight\<close>, from the first entry to the last.\<close>

fun write_all :: "tile list list \<Rightarrow> lit list \<Rightarrow> error + tile list list" where
  "write_all ts [] = Inr ts"
| "write_all ts (t # newLight) =
     (case write_tile ts (lx t) (ly t) (level t) of
        Inl e \<Rightarrow> Inl e
      | Inr ts' \<Rightarrow> write_all ts' newLight)"

definition handleSingleEntity :: "lightmap \<Rightarrow> entity \<Rightarrow> error + lightmap" where
  "handleSingleEntity this entity =
     (let lightSource = lightSourceComponent entity;
          position = positionComponent entity;
          (old, this1) = clear this
      in case calculate this1 lightSource position of
           Inl e \<Rightarrow> Inl e
         | Inr (new, this2) \<Rightarrow>
             (let newLight = old @ new
              in case write_all (map_tiles (lm_game this2)) newLight of
                   Inl e \<Rightarrow> Inl e
                 | Inr ts' \<Rightarrow> Inr (this2\<lparr> lm_game := (lm_game this2)\<lparr> map_tiles := ts' \<rparr> \<rparr>)))"

text \<open>The loop of \<^verbatim>\<open>update\<close> over the entities.\<close>

fun update_loop :: "lightmap \<Rightarrow> entity list \<Rightarrow> error + lightmap" where
  "update_loop this [] = Inr this"
| "update_loop this (e # es) =
     (case handleSingleEntity this e of
        Inl err \<Rightarrow> Inl err
      | Inr this' \<Rightarrow> update_loop this' es)"

definition update :: "lightmap \<Rightarrow> error + lightmap" where
  "update this =
     (if isActive (lm_game this) then
        (case update_loop this (entities (lm_game this)) of
           Inl e \<Rightarrow> Inl e
         | Inr this' \<Rightarrow> Inr (this'\<lparr> tilesLit := True \<rparr>))
      else if tilesLit this then
        (let (old, this') = clear this in Inr (this'\<lparr> tilesLit := False \<rparr>))
      else Inr this)"

subsection \<open>Vocabulary of the statements and proofs\<close>

text \<open>The squared distance of the tile \<open>(X, Y)\<close> from a position: the \<^verbatim>\<open>d\<close> of the scan.\<close>

definition dist2 :: "vector2 \<Rightarrow> int \<Rightarrow> int \<Rightarrow> int" where
  "dist2 position X Y = (X - vx position) * (X - vx position) + (Y - vy position) * (Y - vy position)"

text \<open>
  The expressions of one step of the \<^verbatim>\<open>while\<close> loop: the tile \<^verbatim>\<open>(X, Y)\<close> of the offset
  \<^verbatim>\<open>(dx, dy)\<close>, the bounds check, the two slopes, and the entry pushed for a tile inside the
  wedge (none when the offset is not strictly inside the radius).
\<close>

definition tileX :: "vector2 \<Rightarrow> int \<Rightarrow> int \<Rightarrow> int \<Rightarrow> int \<Rightarrow> int" where
  "tileX position xx xy dx dy = vx position + dx * xx + dy * xy"

definition tileY :: "vector2 \<Rightarrow> int \<Rightarrow> int \<Rightarrow> int \<Rightarrow> int \<Rightarrow> int" where
  "tileY position yx yy dx dy = vy position + dx * yx + dy * yy"

definition in_map :: "lightmap \<Rightarrow> int \<Rightarrow> int \<Rightarrow> bool" where
  "in_map lm X Y \<longleftrightarrow> X < vx (mapSize lm) \<and> X \<ge> 0 \<and> Y < vy (mapSize lm) \<and> Y \<ge> 0"

definition lSlope_of :: "int \<Rightarrow> int \<Rightarrow> rat" where
  "lSlope_of dx dy = (of_int dx - 1 / 2) / (of_int dy + 1 / 2)"

definition rSlope_of :: "int \<Rightarrow> int \<Rightarrow> rat" where
  "rSlope_of dx dy = (of_int dx + 1 / 2) / (of_int dy - 1 / 2)"

definition lit_push :: "vector2 \<Rightarrow> lightsource \<Rightarrow> int \<Rightarrow> int \<Rightarrow> int \<Rightarrow> int \<Rightarrow> lit list" where
  "lit_push position ls X Y dx dy =
     (if of_int (dx * dx + dy * dy) < radius ls * radius ls then
        [\<lparr> lx = X, ly = Y,
           level = (if gradient ls = False then 1
                    else 1 - of_int (dist2 position X Y) / (radius ls * radius ls)) \<rparr>]
      else [])"

text \<open>
  The step at \<open>dxb\<close> reaches the tile: the loop test holds, the tile is inside the map,
  and neither \<^verbatim>\<open>continue\<close> nor \<^verbatim>\<open>break\<close> is taken.
\<close>

definition visits :: "lightmap \<Rightarrow> vector2 \<Rightarrow> rat \<Rightarrow> int \<Rightarrow> int \<Rightarrow> int \<Rightarrow> int \<Rightarrow> int \<Rightarrow> int \<Rightarrow> rat \<Rightarrow> bool" where
  "visits lm position en xx xy yx yy i dxb start \<longleftrightarrow>
     dxb \<le> 0 \<and> in_map lm (tileX position xx xy (dxb + 1) (- i)) (tileY position yx yy (dxb + 1) (- i))
     \<and> \<not> start < rSlope_of (dxb + 1) (- i) \<and> \<not> en > lSlope_of (dxb + 1) (- i)"

text \<open>
  The two kinds of entry a scan pushes: the placeholder for the source (level 0, pushed on
  every entry into \<^verbatim>\<open>calculateOctant\<close>), and the entry of a tile inside the map whose offset
  \<^verbatim>\<open>(dx, dy)\<close> is strictly inside the radius, pushed in some row from \<open>row\<close> on.
\<close>

definition placeholder :: "vector2 \<Rightarrow> lit \<Rightarrow> bool" where
  "placeholder position t \<longleftrightarrow> lx t = vx position \<and> ly t = vy position \<and> level t = 0"

definition lit_entry :: "lightmap \<Rightarrow> vector2 \<Rightarrow> lightsource \<Rightarrow> int \<Rightarrow> int \<Rightarrow> int \<Rightarrow> int \<Rightarrow> int \<Rightarrow> lit \<Rightarrow> bool" where
  "lit_entry lm position ls xx xy yx yy row t \<longleftrightarrow>
     of_int row < radius ls + 1 \<and> in_map lm (lx t) (ly t) \<and>
     level t = (if gradient ls = False then 1
                else 1 - of_int (dist2 position (lx t) (ly t)) / (radius ls * radius ls)) \<and>
     (\<exists>dx dy. lx t = tileX position xx xy dx dy \<and> ly t = tileY position yx yy dx dy \<and>
        of_int (dx * dx + dy * dy) < radius ls * radius ls)"

definition scanned :: "lightmap \<Rightarrow> vector2 \<Rightarrow> lightsource \<Rightarrow> int \<Rightarrow> int \<Rightarrow> int \<Rightarrow> int \<Rightarrow> int \<Rightarrow> lit list \<Rightarrow> bool" where
  "scanned lm position ls xx xy yx yy row ts \<longleftrightarrow>
     (\<forall>t\<in>set ts. placeholder position t \<or> lit_entry lm position ls xx xy yx yy row t)"

text \<open>The grid has the dimensions that the light map took from the settings of the map.\<close>

definition grid_ok :: "lightmap \<Rightarrow> bool" where
  "grid_ok lm \<longleftrightarrow>
     length (map_tiles (lm_game lm)) = nat (vx (mapSize lm)) \<and>
     (\<forall>col\<in>set (map_tiles (lm_game lm)). length col = nat (vy (mapSize lm)))"

text \<open>Every entry of the buffer names a tile inside the map.\<close>

definition buffer_ok :: "lightmap \<Rightarrow> bool" where
  "buffer_ok lm \<longleftrightarrow> (\<forall>t\<in>set (tiles lm). in_map lm (lx t) (ly t))"

text \<open>Two light maps that a scan cannot tell apart: same size, same answers of \<^verbatim>\<open>doesTileBlock\<close>.\<close>

definition same_view :: "lightmap \<Rightarrow> lightmap \<Rightarrow> bool" where
  "same_view lm lm' \<longleftrightarrow>
     mapSize lm' = mapSize lm \<and>
     (\<forall>X Y. in_map lm X Y \<longrightarrow> doesTileBlock lm' X Y = doesTileBlock lm X Y)"

text \<open>
  The level that the write back loop leaves in the tile \<open>(x, y)\<close>: that of the last entry
  for \<open>(x, y)\<close>, if there is one.
\<close>

fun last_write :: "lit list \<Rightarrow> int \<Rightarrow> int \<Rightarrow> rat option" where
  "last_write [] x y = None"
| "last_write (t # ts) x y =
     (case last_write ts x y of
        Some v \<Rightarrow> Some v
      | None \<Rightarrow> if lx t = x \<and> ly t = y then Some (level t) else None)"

text \<open>The effect of the two assignments on a tile.\<close>

definition lit_tile :: "rat \<Rightarrow> tile \<Rightarrow> tile" where
  "lit_tile v t = t\<lparr> lightLevel := v, explored := True \<rparr>"

text \<open>
  An entry of a tile lit by the source: inside the map, strictly inside the radius in true
  squared distance, with the level of the formula of the scan.
\<close>

definition lit_by :: "lightmap \<Rightarrow> vector2 \<Rightarrow> lightsource \<Rightarrow> lit \<Rightarrow> bool" where
  "lit_by lm position ls t \<longleftrightarrow>
     in_map lm (lx t) (ly t) \<and> 0 < radius ls \<and>
     of_int (dist2 position (lx t) (ly t)) < radius ls * radius ls \<and>
     level t = (if gradient ls = False then 1
                else 1 - of_int (dist2 position (lx t) (ly t)) / (radius ls * radius ls))"

text \<open>The entry that \<^verbatim>\<open>calculate\<close> pushes last, and the buffer as \<^verbatim>\<open>clear\<close> returns it.\<close>

definition source_tile :: "vector2 \<Rightarrow> lit" where
  "source_tile position = \<lparr> lx = vx position, ly = vy position, level = 1 \<rparr>"

definition zeroed :: "lit list \<Rightarrow> lit list" where
  "zeroed ts = map (\<lambda>t. t\<lparr> level := 0 \<rparr>) ts"

text \<open>The fields of the tile \<open>(x, y)\<close> of the map; \<open>None\<close> when there is no such tile.\<close>

definition lightLevel_at :: "lightmap \<Rightarrow> int \<Rightarrow> int \<Rightarrow> rat option" where
  "lightLevel_at lm x y = map_option lightLevel (tile_at (map_tiles (lm_game lm)) x y)"

definition explored_at :: "lightmap \<Rightarrow> int \<Rightarrow> int \<Rightarrow> bool option" where
  "explored_at lm x y = map_option explored (tile_at (map_tiles (lm_game lm)) x y)"

text \<open>
  A run of ticks. Between two ticks the game may switch \<^verbatim>\<open>isActive\<close> and the entities may
  move, appear or vanish: each tick comes with the value of \<^verbatim>\<open>isActive\<close> and the list that
  \<^verbatim>\<open>getEntities\<close> returns at that tick.
\<close>

fun ticks :: "lightmap \<Rightarrow> (bool \<times> entity list) list \<Rightarrow> error + lightmap" where
  "ticks lm [] = Inr lm"
| "ticks lm ((active, es) # rest) =
     (case update (lm\<lparr> lm_game := (lm_game lm)\<lparr> isActive := active, entities := es \<rparr> \<rparr>) of
        Inl e \<Rightarrow> Inl e
      | Inr lm' \<Rightarrow> ticks lm' rest)"

text \<open>The level that the scan gives a tile it lights.\<close>

definition intensity :: "lightsource \<Rightarrow> vector2 \<Rightarrow> int \<Rightarrow> int \<Rightarrow> rat" where
  "intensity ls position x y =
     (if gradient ls = False then 1
      else 1 - of_int (dist2 position x y) / (radius ls * radius ls))"

subsection \<open>Concrete scenes\<close>

text \<open>An open floor tile and a wall tile, unlit and unexplored.\<close>

definition open_tile :: tile where
  "open_tile = \<lparr> blockLight = False, lightLevel = 0, explored = False \<rparr>"

definition wall_tile :: tile where
  "wall_tile = \<lparr> blockLight = True, lightLevel = 0, explored = False \<rparr>"

text \<open>The scene of the specification: a 5 by 5 open map and one flat source of radius 2 at (2, 2).\<close>

definition scenario_source :: entity where
  "scenario_source = \<lparr> lightSourceComponent = \<lparr> radius = 2, gradient = False \<rparr>,
                       positionComponent = \<lparr> vx = 2, vy = 2 \<rparr> \<rparr>"

definition scenario_game :: game where
  "scenario_game = \<lparr> isActive = True, tilesX = 5, tilesY = 5,
                     map_tiles = replicate 5 (replicate 5 open_tile),
                     entities = [scenario_source] \<rparr>"

text \<open>The same scene with the tile (0, 0) already explored.\<close>

definition explored_game :: game where
  "explored_game = scenario_game\<lparr> map_tiles :=
     (replicate 5 open_tile)[0 := open_tile\<lparr> explored := True \<rparr>] # replicate 4 (replicate 5 open_tile) \<rparr>"

text \<open>An inactive game whose last active pass lit the tile (2, 2).\<close>

definition idle_state :: lightmap where
  "idle_state =
     \<lparr> lm_game = \<lparr> isActive = False, tilesX = 5, tilesY = 5,
                    map_tiles = (replicate 5 (replicate 5 open_tile))
                      [2 := (replicate 5 open_tile)
                         [2 := \<lparr> blockLight = False, lightLevel = 1, explored = True \<rparr>]],
                    entities = [scenario_source] \<rparr>,
       mapSize = \<lparr> vx = 5, vy = 5 \<rparr>,
       tiles = [\<lparr> lx = 2, ly = 2, level = 1 \<rparr>],
       tilesLit = True \<rparr>"

text \<open>What a run leaves in one tile; \<open>None\<close> when the run failed or the tile does not exist.\<close>

definition result_lightLevel :: "error + lightmap \<Rightarrow> int \<Rightarrow> int \<Rightarrow> rat option" where
  "result_lightLevel r x y = (case r of Inl e \<Rightarrow> None | Inr lm \<Rightarrow> lightLevel_at lm x y)"

definition result_explored :: "error + lightmap \<Rightarrow> int \<Rightarrow> int \<Rightarrow> bool option" where
  "result_explored r x y = (case r of Inl e \<Rightarrow> None | Inr lm \<Rightarrow> explored_at lm x y)"

text \<open>Further sources for the 5 by 5 scene.\<close>

definition gradient_source :: entity where
  "gradient_source = \<lparr> lightSourceComponent = \<lparr> radius = 2, gradient = True \<rparr>,
                       positionComponent = \<lparr> vx = 2, vy = 2 \<rparr> \<rparr>"

definition left_source :: entity where
  "left_source = \<lparr> lightSourceComponent = \<lparr> radius = 2, gradient = False \<rparr>,
                   positionComponent = \<lparr> vx = 1, vy = 2 \<rparr> \<rparr>"

definition right_source :: entity where
  "right_source = \<lparr> lightSourceComponent = \<lparr> radius = 2, gradient = True \<rparr>,
                    positionComponent = \<lparr> vx = 3, vy = 2 \<rparr> \<rparr>"

definition two_source_game :: game where
  "two_source_game = scenario_game\<lparr> entities := [left_source, right_source] \<rparr>"

definition far_source :: entity where
  "far_source = \<lparr> lightSourceComponent = \<lparr> radius = 2, gradient = False \<rparr>,
                  positionComponent = \<lparr> vx = 4, vy = 4 \<rparr> \<rparr>"

definition three_source_game :: game where
  "three_source_game = scenario_game\<lparr> entities := [left_source, right_source, far_source] \<rparr>"

definition corner_source :: entity where
  "corner_source = \<lparr> lightSourceComponent = \<lparr> radius = 6, gradient = True \<rparr>,
                     positionComponent = \<lparr> vx = 0, vy = 4 \<rparr> \<rparr>"

text \<open>The grid that a run leaves; \<open>None\<close> when the run failed.\<close>

definition result_tiles :: "error + lightmap \<Rightarrow> tile list list option" where
  "result_tiles r = (case r of Inl e \<Rightarrow> None | Inr lm \<Rightarrow> Some (map_tiles (lm_game lm)))"

text \<open>The scene with the tile (2, 3) turned into a wall.\<close>

definition blocker_game :: game where
  "blocker_game = scenario_game\<lparr> map_tiles :=
     (replicate 5 (replicate 5 open_tile))[2 := (replicate 5 open_tile)[3 := wall_tile]] \<rparr>"

text \<open>
  A map of 5 columns and 14 rows. Row 12 is a wall over the whole width; the only other
  blocking tiles are (0, 2) and (2, 5). The source stands at (0, 0) with radius 14.
\<close>

definition leak_column :: "nat list \<Rightarrow> tile list" where
  "leak_column ws = map (\<lambda>y. if y = 12 \<or> y \<in> set ws then wall_tile else open_tile) [0..<14]"

definition leak_source :: entity where
  "leak_source = \<lparr> lightSourceComponent = \<lparr> radius = 14, gradient = False \<rparr>,
                   positionComponent = \<lparr> vx = 0, vy = 0 \<rparr> \<rparr>"

definition leak_game :: game where
  "leak_game = \<lparr> isActive = True, tilesX = 5, tilesY = 14,
                 map_tiles = [leak_column [2], leak_column [], leak_column [5],
                              leak_column [], leak_column []],
                 entities = [leak_source] \<rparr>"

section \<open>Properties\<close>

subsection \<open>The scan, branch by branch\<close>

text \<open>
  The equations of the scan are applied by hand, one step of a loop at a time; as rewrite
  rules they would unfold without end.
\<close>

declare calculateOctant.simps [simp del] octant_rows.simps [simp del]
  octant_cols.simps [simp del] octant_row_end.simps [simp del] calculate_loop.simps [simp del]

text \<open>One step of the \<^verbatim>\<open>while\<close> loop, written with these names.\<close>

lemma octant_cols_unfold:
  "octant_cols lm position en ls xx xy yx yy idn i dxb start newStart blocked =
     (if dxb \<le> 0 then
        (if in_map lm (tileX position xx xy (dxb + 1) (- i)) (tileY position yx yy (dxb + 1) (- i)) then
           (if start < rSlope_of (dxb + 1) (- i) then
              octant_cols lm position en ls xx xy yx yy idn i (dxb + 1) start newStart blocked
            else if en > lSlope_of (dxb + 1) (- i) then
              octant_row_end lm position en ls xx xy yx yy idn i start newStart blocked
            else
              then_push
                (lit_push position ls (tileX position xx xy (dxb + 1) (- i))
                   (tileY position yx yy (dxb + 1) (- i)) (dxb + 1) (- i))
                (case doesTileBlock lm (tileX position xx xy (dxb + 1) (- i))
                        (tileY position yx yy (dxb + 1) (- i)) of
                   Inl e \<Rightarrow> Inl e
                 | Inr b \<Rightarrow>
                     if blocked then
                       (if b then
                          octant_cols lm position en ls xx xy yx yy idn i (dxb + 1)
                            start (rSlope_of (dxb + 1) (- i)) blocked
                        else
                          octant_cols lm position en ls xx xy yx yy idn i (dxb + 1)
                            newStart newStart False)
                     else
                       (if b \<and> of_int i < radius ls then
                          (case calculateOctant lm position (i + 1) start (lSlope_of (dxb + 1) (- i)) ls
                                  xx xy yx yy (idn + 1) of
                             Inl e \<Rightarrow> Inl e
                           | Inr sub \<Rightarrow>
                               then_push sub
                                 (octant_cols lm position en ls xx xy yx yy idn i (dxb + 1)
                                    start (rSlope_of (dxb + 1) (- i)) True))
                        else
                          octant_cols lm position en ls xx xy yx yy idn i (dxb + 1)
                            start newStart blocked)))
         else octant_cols lm position en ls xx xy yx yy idn i (dxb + 1) start newStart blocked)
      else octant_row_end lm position en ls xx xy yx yy idn i start newStart blocked)"
  unfolding tileX_def tileY_def in_map_def lSlope_of_def rSlope_of_def lit_push_def dist2_def
  by (subst octant_cols.simps) (simp only: Let_def)

lemma then_push_simps [simp]:
  "then_push ts (Inl e) = Inl e"
  "then_push ts (Inr us) = Inr (ts @ us)"
  by (simp_all add: then_push_def)

lemma octant_cols_visit:
  assumes "visits lm position en xx xy yx yy i dxb start"
  shows "octant_cols lm position en ls xx xy yx yy idn i dxb start newStart blocked =
     then_push (lit_push position ls (tileX position xx xy (dxb + 1) (- i)) (tileY position yx yy (dxb + 1) (- i)) (dxb + 1) (- i))
       (case doesTileBlock lm (tileX position xx xy (dxb + 1) (- i)) (tileY position yx yy (dxb + 1) (- i)) of
          Inl e \<Rightarrow> Inl e
        | Inr b \<Rightarrow>
            if blocked then
              (if b then octant_cols lm position en ls xx xy yx yy idn i (dxb + 1) start (rSlope_of (dxb + 1) (- i)) blocked
               else octant_cols lm position en ls xx xy yx yy idn i (dxb + 1) newStart newStart False)
            else
              (if b \<and> of_int i < radius ls then
                 (case calculateOctant lm position (i + 1) start (lSlope_of (dxb + 1) (- i)) ls xx xy yx yy (idn + 1) of
                    Inl e \<Rightarrow> Inl e
                  | Inr sub \<Rightarrow>
                      then_push sub (octant_cols lm position en ls xx xy yx yy idn i (dxb + 1) start (rSlope_of (dxb + 1) (- i)) True))
               else octant_cols lm position en ls xx xy yx yy idn i (dxb + 1) start newStart blocked))"
proof -
  from assms have c: "dxb \<le> 0" "in_map lm (tileX position xx xy (dxb + 1) (- i)) (tileY position yx yy (dxb + 1) (- i))"
    "\<not> start < rSlope_of (dxb + 1) (- i)" "\<not> en > lSlope_of (dxb + 1) (- i)"
    by (simp_all add: visits_def)
  show ?thesis
    by (subst octant_cols_unfold) (simp only: c if_True if_False)
qed

text \<open>The nine ways through one step of the \<^verbatim>\<open>while\<close> loop, each with what the loop does next.\<close>

lemma octant_cols_cases
  [case_names exit outside skip break err blocked_block blocked_open open_block open_pass]:
  obtains
    (exit) "\<not> dxb \<le> 0"
      "octant_cols lm position en ls xx xy yx yy idn i dxb start newStart blocked = octant_row_end lm position en ls xx xy yx yy idn i start newStart blocked"
  | (outside) "dxb \<le> 0" "\<not> in_map lm (tileX position xx xy (dxb + 1) (- i)) (tileY position yx yy (dxb + 1) (- i))"
      "octant_cols lm position en ls xx xy yx yy idn i dxb start newStart blocked = octant_cols lm position en ls xx xy yx yy idn i (dxb + 1) start newStart blocked"
  | (skip) "dxb \<le> 0" "in_map lm (tileX position xx xy (dxb + 1) (- i)) (tileY position yx yy (dxb + 1) (- i))" "start < rSlope_of (dxb + 1) (- i)"
      "octant_cols lm position en ls xx xy yx yy idn i dxb start newStart blocked = octant_cols lm position en ls xx xy yx yy idn i (dxb + 1) start newStart blocked"
  | (break) "dxb \<le> 0" "in_map lm (tileX position xx xy (dxb + 1) (- i)) (tileY position yx yy (dxb + 1) (- i))" "\<not> start < rSlope_of (dxb + 1) (- i)" "en > lSlope_of (dxb + 1) (- i)"
      "octant_cols lm position en ls xx xy yx yy idn i dxb start newStart blocked = octant_row_end lm position en ls xx xy yx yy idn i start newStart blocked"
  | (err) e where "visits lm position en xx xy yx yy i dxb start" "doesTileBlock lm (tileX position xx xy (dxb + 1) (- i)) (tileY position yx yy (dxb + 1) (- i)) = Inl e"
      "octant_cols lm position en ls xx xy yx yy idn i dxb start newStart blocked = Inl e"
  | (blocked_block) "visits lm position en xx xy yx yy i dxb start" "doesTileBlock lm (tileX position xx xy (dxb + 1) (- i)) (tileY position yx yy (dxb + 1) (- i)) = Inr True" "blocked"
      "octant_cols lm position en ls xx xy yx yy idn i dxb start newStart blocked = then_push (lit_push position ls (tileX position xx xy (dxb + 1) (- i)) (tileY position yx yy (dxb + 1) (- i)) (dxb + 1) (- i))
         (octant_cols lm position en ls xx xy yx yy idn i (dxb + 1) start (rSlope_of (dxb + 1) (- i)) blocked)"
  | (blocked_open) "visits lm position en xx xy yx yy i dxb start" "doesTileBlock lm (tileX position xx xy (dxb + 1) (- i)) (tileY position yx yy (dxb + 1) (- i)) = Inr False" "blocked"
      "octant_cols lm position en ls xx xy yx yy idn i dxb start newStart blocked = then_push (lit_push position ls (tileX position xx xy (dxb + 1) (- i)) (tileY position yx yy (dxb + 1) (- i)) (dxb + 1) (- i))
         (octant_cols lm position en ls xx xy yx yy idn i (dxb + 1) newStart newStart False)"
  | (open_block) "visits lm position en xx xy yx yy i dxb start" "doesTileBlock lm (tileX position xx xy (dxb + 1) (- i)) (tileY position yx yy (dxb + 1) (- i)) = Inr True" "\<not> blocked"
      "of_int i < radius ls"
      "octant_cols lm position en ls xx xy yx yy idn i dxb start newStart blocked = then_push (lit_push position ls (tileX position xx xy (dxb + 1) (- i)) (tileY position yx yy (dxb + 1) (- i)) (dxb + 1) (- i))
         (case calculateOctant lm position (i + 1) start (lSlope_of (dxb + 1) (- i)) ls xx xy yx yy (idn + 1) of
            Inl e \<Rightarrow> Inl e
          | Inr sub \<Rightarrow> then_push sub (octant_cols lm position en ls xx xy yx yy idn i (dxb + 1) start (rSlope_of (dxb + 1) (- i)) True))"
  | (open_pass) b where "visits lm position en xx xy yx yy i dxb start" "doesTileBlock lm (tileX position xx xy (dxb + 1) (- i)) (tileY position yx yy (dxb + 1) (- i)) = Inr b" "\<not> blocked"
      "\<not> (b \<and> of_int i < radius ls)"
      "octant_cols lm position en ls xx xy yx yy idn i dxb start newStart blocked = then_push (lit_push position ls (tileX position xx xy (dxb + 1) (- i)) (tileY position yx yy (dxb + 1) (- i)) (dxb + 1) (- i))
         (octant_cols lm position en ls xx xy yx yy idn i (dxb + 1) start newStart blocked)"
proof (cases "dxb \<le> 0")
  case False
  then show ?thesis by (intro exit) (simp_all add: octant_cols_unfold)
next
  case le: True
  show ?thesis
  proof (cases "in_map lm (tileX position xx xy (dxb + 1) (- i)) (tileY position yx yy (dxb + 1) (- i))")
    case False
    with le show ?thesis by (intro outside) (simp_all add: octant_cols_unfold)
  next
    case inm: True
    show ?thesis
    proof (cases "start < rSlope_of (dxb + 1) (- i)")
      case True
      with le inm show ?thesis by (intro skip) (simp_all add: octant_cols_unfold)
    next
      case ns: False
      show ?thesis
      proof (cases "en > lSlope_of (dxb + 1) (- i)")
        case True
        with le inm ns show ?thesis by (intro break) (simp_all add: octant_cols_unfold)
      next
        case False
        with le inm ns have v: "visits lm position en xx xy yx yy i dxb start"
          by (simp add: visits_def)
        note eq = octant_cols_visit [OF v, of ls idn newStart blocked]
        show ?thesis
        proof (cases "doesTileBlock lm (tileX position xx xy (dxb + 1) (- i)) (tileY position yx yy (dxb + 1) (- i))")
          case (Inl e)
          with v eq show ?thesis by (intro err [of e]) simp_all
        next
          case (Inr b)
          show ?thesis
          proof (cases blocked)
            case True
            show ?thesis
            proof (cases b)
              case True
              with v eq Inr \<open>blocked\<close> show ?thesis by (intro blocked_block) simp_all
            next
              case False
              with v eq Inr \<open>blocked\<close> show ?thesis by (intro blocked_open) simp_all
            qed
          next
            case nb: False
            show ?thesis
            proof (cases "b \<and> of_int i < radius ls")
              case True
              with v eq Inr nb show ?thesis by (intro open_block) simp_all
            next
              case False
              with v eq Inr nb show ?thesis by (intro open_pass [of b]) simp_all
            qed
          qed
        qed
      qed
    qed
  qed
qed

text \<open>
  Induction along the calls of the scan, with the conditions of each call spelled in the
  names above.
\<close>

lemma octant_induct [case_names calculateOctant rows cols row_end]:
  fixes P :: "lightmap \<Rightarrow> vector2 \<Rightarrow> int \<Rightarrow> rat \<Rightarrow> rat \<Rightarrow> lightsource \<Rightarrow> int \<Rightarrow> int \<Rightarrow> int \<Rightarrow> int \<Rightarrow> int \<Rightarrow> bool"
    and Q :: "lightmap \<Rightarrow> vector2 \<Rightarrow> rat \<Rightarrow> lightsource \<Rightarrow> int \<Rightarrow> int \<Rightarrow> int \<Rightarrow> int \<Rightarrow> int \<Rightarrow> int \<Rightarrow> rat \<Rightarrow> rat \<Rightarrow> bool"
    and R :: "lightmap \<Rightarrow> vector2 \<Rightarrow> rat \<Rightarrow> lightsource \<Rightarrow> int \<Rightarrow> int \<Rightarrow> int \<Rightarrow> int \<Rightarrow> int \<Rightarrow> int \<Rightarrow> int \<Rightarrow> rat \<Rightarrow> rat \<Rightarrow> bool \<Rightarrow> bool"
    and S :: "lightmap \<Rightarrow> vector2 \<Rightarrow> rat \<Rightarrow> lightsource \<Rightarrow> int \<Rightarrow> int \<Rightarrow> int \<Rightarrow> int \<Rightarrow> int \<Rightarrow> int \<Rightarrow> rat \<Rightarrow> rat \<Rightarrow> bool \<Rightarrow> bool"
  assumes calc: "\<And>lm position row start en ls xx xy yx yy idn.
      (\<not> start < en \<Longrightarrow> Q lm position en ls xx xy yx yy idn row start 0)
      \<Longrightarrow> P lm position row start en ls xx xy yx yy idn"
    and rows: "\<And>lm position en ls xx xy yx yy idn i start newStart.
      (of_int i < radius ls + 1 \<Longrightarrow> R lm position en ls xx xy yx yy idn i (- i - 1) start newStart False)
      \<Longrightarrow> Q lm position en ls xx xy yx yy idn i start newStart"
    and cols: "\<And>lm position en ls xx xy yx yy idn i dxb start newStart blocked.
      (\<not> dxb \<le> 0 \<Longrightarrow> S lm position en ls xx xy yx yy idn i start newStart blocked) \<Longrightarrow>
      (dxb \<le> 0 \<Longrightarrow> \<not> in_map lm (tileX position xx xy (dxb + 1) (- i)) (tileY position yx yy (dxb + 1) (- i))
         \<Longrightarrow> R lm position en ls xx xy yx yy idn i (dxb + 1) start newStart blocked) \<Longrightarrow>
      (dxb \<le> 0 \<Longrightarrow> in_map lm (tileX position xx xy (dxb + 1) (- i)) (tileY position yx yy (dxb + 1) (- i)) \<Longrightarrow> start < rSlope_of (dxb + 1) (- i)
         \<Longrightarrow> R lm position en ls xx xy yx yy idn i (dxb + 1) start newStart blocked) \<Longrightarrow>
      (dxb \<le> 0 \<Longrightarrow> in_map lm (tileX position xx xy (dxb + 1) (- i)) (tileY position yx yy (dxb + 1) (- i)) \<Longrightarrow> \<not> start < rSlope_of (dxb + 1) (- i) \<Longrightarrow> en > lSlope_of (dxb + 1) (- i)
         \<Longrightarrow> S lm position en ls xx xy yx yy idn i start newStart blocked) \<Longrightarrow>
      (visits lm position en xx xy yx yy i dxb start \<Longrightarrow> doesTileBlock lm (tileX position xx xy (dxb + 1) (- i)) (tileY position yx yy (dxb + 1) (- i)) = Inr True \<Longrightarrow> blocked
         \<Longrightarrow> R lm position en ls xx xy yx yy idn i (dxb + 1) start (rSlope_of (dxb + 1) (- i)) blocked) \<Longrightarrow>
      (visits lm position en xx xy yx yy i dxb start \<Longrightarrow> doesTileBlock lm (tileX position xx xy (dxb + 1) (- i)) (tileY position yx yy (dxb + 1) (- i)) = Inr False \<Longrightarrow> blocked
         \<Longrightarrow> R lm position en ls xx xy yx yy idn i (dxb + 1) newStart newStart False) \<Longrightarrow>
      (visits lm position en xx xy yx yy i dxb start \<Longrightarrow> doesTileBlock lm (tileX position xx xy (dxb + 1) (- i)) (tileY position yx yy (dxb + 1) (- i)) = Inr True \<Longrightarrow> \<not> blocked
         \<Longrightarrow> of_int i < radius ls
         \<Longrightarrow> P lm position (i + 1) start (lSlope_of (dxb + 1) (- i)) ls xx xy yx yy (idn + 1)) \<Longrightarrow>
      (\<And>sub. visits lm position en xx xy yx yy i dxb start \<Longrightarrow> doesTileBlock lm (tileX position xx xy (dxb + 1) (- i)) (tileY position yx yy (dxb + 1) (- i)) = Inr True \<Longrightarrow> \<not> blocked
         \<Longrightarrow> of_int i < radius ls
         \<Longrightarrow> calculateOctant lm position (i + 1) start (lSlope_of (dxb + 1) (- i)) ls xx xy yx yy (idn + 1) = Inr sub
         \<Longrightarrow> R lm position en ls xx xy yx yy idn i (dxb + 1) start (rSlope_of (dxb + 1) (- i)) True) \<Longrightarrow>
      (\<And>b. visits lm position en xx xy yx yy i dxb start \<Longrightarrow> doesTileBlock lm (tileX position xx xy (dxb + 1) (- i)) (tileY position yx yy (dxb + 1) (- i)) = Inr b \<Longrightarrow> \<not> blocked
         \<Longrightarrow> \<not> (b \<and> of_int i < radius ls)
         \<Longrightarrow> R lm position en ls xx xy yx yy idn i (dxb + 1) start newStart blocked)
      \<Longrightarrow> R lm position en ls xx xy yx yy idn i dxb start newStart blocked"
    and row_end: "\<And>lm position en ls xx xy yx yy idn i start newStart blocked.
      (\<not> blocked \<Longrightarrow> Q lm position en ls xx xy yx yy idn (i + 1) start newStart)
      \<Longrightarrow> S lm position en ls xx xy yx yy idn i start newStart blocked"
  shows "P lm position row start en ls xx xy yx yy idn"
    and "Q lm position en ls xx xy yx yy idn i start newStart"
    and "R lm position en ls xx xy yx yy idn i dxb start newStart blocked"
    and "S lm position en ls xx xy yx yy idn i start newStart blocked"
proof (induction lm position row start en ls xx xy yx yy idn
         and lm position en ls xx xy yx yy idn i start newStart
         and lm position en ls xx xy yx yy idn i dxb start newStart blocked
         and lm position en ls xx xy yx yy idn i start newStart blocked
       rule: calculateOctant_octant_rows_octant_cols_octant_row_end.induct)
  case (1 lm position row start en ls xx xy yx yy idn)
  then show ?case by (rule calc)
next
  case (2 lm position en ls xx xy yx yy idn i start newStart)
  then show ?case by (rule rows)
next
  case (3 lm position en ls xx xy yx yy idn i dxb start newStart blocked)
  note IH = "3.IH"
  note defs = tileX_def tileY_def in_map_def lSlope_of_def rSlope_of_def visits_def
  show ?case
  proof (rule cols, goal_cases)
    case 1
    then show ?case by (rule IH(9))
  next
    case 2
    then show ?case using IH(8) [OF _ refl refl refl refl]
      by (simp add: defs)
  next
    case 3
    then show ?case using IH(1) [OF _ refl refl refl refl _ refl refl]
      by (simp add: defs)
  next
    case 4
    then show ?case using IH(2) [OF _ refl refl refl refl _ refl refl]
      by (simp add: defs)
  next
    case 5
    then show ?case using IH(3) [OF _ refl refl refl refl _ refl refl, of True]
      by (simp add: defs)
  next
    case 6
    then show ?case using IH(4) [OF _ refl refl refl refl _ refl refl, of False]
      by (simp add: defs)
  next
    case 7
    then show ?case using IH(5) [OF _ refl refl refl refl _ refl refl, of True]
      by (simp add: defs)
  next
    case (8 sub)
    then show ?case using IH(6) [OF _ refl refl refl refl _ refl refl, of True sub]
      by (simp add: defs)
  next
    case (9 b)
    then show ?case using IH(7) [OF _ refl refl refl refl _ refl refl, of b]
      by (simp add: defs)
  qed
next
  case (4 lm position en ls xx xy yx yy idn i start newStart blocked)
  then show ?case by (rule row_end)
qed

subsection \<open>What a scan pushes\<close>

lemma scanned_mono:
  "scanned lm position ls xx xy yx yy (row + 1) ts \<Longrightarrow> scanned lm position ls xx xy yx yy row ts"
  unfolding scanned_def lit_entry_def by auto

lemma scanned_Nil [simp]: "scanned lm position ls xx xy yx yy row []"
  by (simp add: scanned_def)

lemma scanned_append [simp]:
  "scanned lm position ls xx xy yx yy row (ts @ us) \<longleftrightarrow>
     scanned lm position ls xx xy yx yy row ts \<and> scanned lm position ls xx xy yx yy row us"
  by (auto simp: scanned_def)

lemma scanned_Cons [simp]:
  "scanned lm position ls xx xy yx yy row (t # ts) \<longleftrightarrow>
     (placeholder position t \<or> lit_entry lm position ls xx xy yx yy row t)
     \<and> scanned lm position ls xx xy yx yy row ts"
  by (auto simp: scanned_def)

lemma scanned_lit_push:
  "in_map lm (tileX position xx xy dx dy) (tileY position yx yy dx dy) \<Longrightarrow> of_int row < radius ls + 1
   \<Longrightarrow> scanned lm position ls xx xy yx yy row
        (lit_push position ls (tileX position xx xy dx dy) (tileY position yx yy dx dy) dx dy)"
  by (auto simp: lit_entry_def lit_push_def)

lemma scanned_visit:
  "visits lm position en xx xy yx yy i dxb start \<Longrightarrow> of_int i < radius ls + 1
   \<Longrightarrow> scanned lm position ls xx xy yx yy i
        (lit_push position ls (tileX position xx xy (dxb + 1) (- i))
           (tileY position yx yy (dxb + 1) (- i)) (dxb + 1) (- i))"
  by (simp add: visits_def scanned_lit_push)

lemma then_push_Inr:
  "then_push ts r = Inr us \<longleftrightarrow> (\<exists>vs. r = Inr vs \<and> us = ts @ vs)"
  "Inr us = then_push ts r \<longleftrightarrow> (\<exists>vs. r = Inr vs \<and> us = ts @ vs)"
  by (cases r; auto)+

lemma octant_scanned:
  "calculateOctant lm position row start en ls xx xy yx yy idn = Inr ts
     \<Longrightarrow> scanned lm position ls xx xy yx yy row ts"
  "octant_rows lm position en ls xx xy yx yy idn i start newStart = Inr ts
     \<Longrightarrow> scanned lm position ls xx xy yx yy i ts"
  "octant_cols lm position en ls xx xy yx yy idn i dxb start newStart blocked = Inr ts
     \<Longrightarrow> of_int i < radius ls + 1 \<Longrightarrow> scanned lm position ls xx xy yx yy i ts"
  "octant_row_end lm position en ls xx xy yx yy idn i start newStart blocked = Inr ts
     \<Longrightarrow> scanned lm position ls xx xy yx yy i ts"
proof (induction lm position row start en ls xx xy yx yy idn
         and lm position en ls xx xy yx yy idn i start newStart
         and lm position en ls xx xy yx yy idn i dxb start newStart blocked
         and lm position en ls xx xy yx yy idn i start newStart blocked
       arbitrary: ts and ts and ts and ts
       rule: octant_induct)
  case (calculateOctant lm position row start en ls xx xy yx yy idn)
  from calculateOctant.prems show ?case
    by (subst (asm) calculateOctant.simps)
       (auto simp: then_push_Inr placeholder_def split: if_splits intro: calculateOctant.IH)
next
  case (rows lm position en ls xx xy yx yy idn i start newStart)
  from rows.prems show ?case
    by (subst (asm) octant_rows.simps) (auto split: if_splits intro: rows.IH)
next
  case (cols lm position en ls xx xy yx yy idn i dxb start newStart blocked)
  note r = cols.prems(2)
  show ?case
  proof (cases rule: octant_cols_cases [where lm=lm and position=position and en=en and ls=ls and xx=xx and xy=xy and yx=yx and yy=yy and idn=idn and i=i and dxb=dxb and start=start and newStart=newStart and blocked=blocked])
    case exit
    with cols.prems(1) cols.IH(1) show ?thesis by simp
  next
    case outside
    with cols.prems cols.IH(2) show ?thesis by simp
  next
    case skip
    with cols.prems cols.IH(3) show ?thesis by simp
  next
    case break
    with cols.prems(1) cols.IH(4) show ?thesis by simp
  next
    case (err e)
    with cols.prems(1) show ?thesis by simp
  next
    case blocked_block
    with cols.prems cols.IH(5) scanned_visit [OF blocked_block(1) r] show ?thesis
      by (auto simp: then_push_Inr)
  next
    case blocked_open
    with cols.prems cols.IH(6) scanned_visit [OF blocked_open(1) r] show ?thesis
      by (auto simp: then_push_Inr)
  next
    case open_block
    note sub = scanned_mono [OF cols.IH(7) [OF open_block(1-4)]]
    note rest = cols.IH(8) [OF open_block(1-4) _ _ r]
    from cols.prems(1) scanned_visit [OF open_block(1) r] sub rest show ?thesis
      unfolding open_block(5)
      by (auto simp: then_push_Inr split: sum.splits)
  next
    case (open_pass b)
    with cols.prems cols.IH(9) scanned_visit [OF open_pass(1) r] show ?thesis
      by (auto simp: then_push_Inr)
  qed
next
  case (row_end lm position en ls xx xy yx yy idn i start newStart blocked)
  from row_end.prems show ?case
    by (subst (asm) octant_row_end.simps) (auto split: if_splits intro: scanned_mono [OF row_end.IH])
qed

subsection \<open>A scan on a grid of the declared size does not fail\<close>

lemma grid_ok_tile_at:
  "grid_ok lm \<Longrightarrow> in_map lm X Y \<Longrightarrow> \<exists>t. tile_at (map_tiles (lm_game lm)) X Y = Some t"
  by (auto simp: grid_ok_def in_map_def tile_at_def)

lemma grid_ok_doesTileBlock:
  "grid_ok lm \<Longrightarrow> in_map lm X Y \<Longrightarrow> \<exists>b. doesTileBlock lm X Y = Inr b"
  using grid_ok_tile_at [of lm X Y] by (auto simp: doesTileBlock_def)

lemma visits_in_map:
  "visits lm position en xx xy yx yy i dxb start
   \<Longrightarrow> in_map lm (tileX position xx xy (dxb + 1) (- i)) (tileY position yx yy (dxb + 1) (- i))"
  by (simp add: visits_def)

lemma octant_succeeds:
  "grid_ok lm \<Longrightarrow> \<exists>ts. calculateOctant lm position row start en ls xx xy yx yy idn = Inr ts"
  "grid_ok lm \<Longrightarrow> \<exists>ts. octant_rows lm position en ls xx xy yx yy idn i start newStart = Inr ts"
  "grid_ok lm \<Longrightarrow> \<exists>ts. octant_cols lm position en ls xx xy yx yy idn i dxb start newStart blocked = Inr ts"
  "grid_ok lm \<Longrightarrow> \<exists>ts. octant_row_end lm position en ls xx xy yx yy idn i start newStart blocked = Inr ts"
proof (induction lm position row start en ls xx xy yx yy idn
         and lm position en ls xx xy yx yy idn i start newStart
         and lm position en ls xx xy yx yy idn i dxb start newStart blocked
         and lm position en ls xx xy yx yy idn i start newStart blocked
       rule: octant_induct)
  case (calculateOctant lm position row start en ls xx xy yx yy idn)
  then show ?case
    by (subst calculateOctant.simps) (auto simp: then_push_Inr)
next
  case (rows lm position en ls xx xy yx yy idn i start newStart)
  then show ?case
    by (subst octant_rows.simps) auto
next
  case (cols lm position en ls xx xy yx yy idn i dxb start newStart blocked)
  note g = cols.prems
  show ?case
  proof (cases rule: octant_cols_cases [where lm=lm and position=position and en=en and ls=ls and xx=xx and xy=xy and yx=yx and yy=yy and idn=idn and i=i and dxb=dxb and start=start and newStart=newStart and blocked=blocked])
    case exit
    with cols.IH(1) g show ?thesis by simp
  next
    case outside
    with cols.IH(2) g show ?thesis by simp
  next
    case skip
    with cols.IH(3) g show ?thesis by simp
  next
    case break
    with cols.IH(4) g show ?thesis by simp
  next
    case (err e)
    with grid_ok_doesTileBlock [OF g visits_in_map [OF err(1)]] show ?thesis by simp
  next
    case blocked_block
    with cols.IH(5) g show ?thesis by (auto simp: then_push_Inr)
  next
    case blocked_open
    with cols.IH(6) g show ?thesis by (auto simp: then_push_Inr)
  next
    case open_block
    from cols.IH(7) [OF open_block(1-4) g] obtain sub where
      sub: "calculateOctant lm position (i + 1) start (lSlope_of (dxb + 1) (- i)) ls xx xy yx yy (idn + 1) = Inr sub"
      by blast
    from cols.IH(8) [OF open_block(1-4) sub g] sub show ?thesis
      unfolding open_block(5) by (auto simp: then_push_Inr)
  next
    case (open_pass b)
    with cols.IH(9) g show ?thesis by (auto simp: then_push_Inr)
  qed
next
  case (row_end lm position en ls xx xy yx yy idn i start newStart blocked)
  then show ?case
    by (subst octant_row_end.simps) auto
qed

subsection \<open>A scan depends on the size of the map and on \<^verbatim>\<open>blockLight\<close> only\<close>

lemma same_view_in_map: "same_view lm lm' \<Longrightarrow> in_map lm' X Y = in_map lm X Y"
  by (simp add: same_view_def in_map_def)

lemma same_view_visits:
  "same_view lm lm' \<Longrightarrow> visits lm' position en xx xy yx yy i dxb start
     = visits lm position en xx xy yx yy i dxb start"
  by (simp add: visits_def same_view_in_map)

lemma same_view_block:
  "same_view lm lm' \<Longrightarrow> in_map lm X Y \<Longrightarrow> doesTileBlock lm' X Y = doesTileBlock lm X Y"
  by (simp add: same_view_def)

lemma octant_same_view:
  "same_view lm lm' \<Longrightarrow> calculateOctant lm' position row start en ls xx xy yx yy idn
     = calculateOctant lm position row start en ls xx xy yx yy idn"
  "same_view lm lm' \<Longrightarrow> octant_rows lm' position en ls xx xy yx yy idn i start newStart
     = octant_rows lm position en ls xx xy yx yy idn i start newStart"
  "same_view lm lm' \<Longrightarrow> octant_cols lm' position en ls xx xy yx yy idn i dxb start newStart blocked
     = octant_cols lm position en ls xx xy yx yy idn i dxb start newStart blocked"
  "same_view lm lm' \<Longrightarrow> octant_row_end lm' position en ls xx xy yx yy idn i start newStart blocked
     = octant_row_end lm position en ls xx xy yx yy idn i start newStart blocked"
proof (induction lm position row start en ls xx xy yx yy idn
         and lm position en ls xx xy yx yy idn i start newStart
         and lm position en ls xx xy yx yy idn i dxb start newStart blocked
         and lm position en ls xx xy yx yy idn i start newStart blocked
       rule: octant_induct)
  case (calculateOctant lm position row start en ls xx xy yx yy idn)
  then show ?case
    by (subst (1 2) calculateOctant.simps) auto
next
  case (rows lm position en ls xx xy yx yy idn i start newStart)
  then show ?case
    by (subst (1 2) octant_rows.simps) auto
next
  case (cols lm position en ls xx xy yx yy idn i dxb start newStart blocked)
  note v = cols.prems
  note im = same_view_in_map [OF v]
  note vis = same_view_visits [OF v]
  show ?case
  proof (cases rule: octant_cols_cases [where lm=lm and position=position and en=en and ls=ls and xx=xx and xy=xy and yx=yx and yy=yy and idn=idn and i=i and dxb=dxb and start=start and newStart=newStart and blocked=blocked])
    case exit
    with cols.IH(1) v show ?thesis by (simp add: octant_cols_unfold [of lm'])
  next
    case outside
    with cols.IH(2) v show ?thesis by (simp add: octant_cols_unfold [of lm'] im)
  next
    case skip
    with cols.IH(3) v show ?thesis by (simp add: octant_cols_unfold [of lm'] im)
  next
    case break
    with cols.IH(4) v show ?thesis by (simp add: octant_cols_unfold [of lm'] im)
  next
    case (err e)
    note b = same_view_block [OF v visits_in_map [OF err(1)]]
    from err show ?thesis by (simp add: octant_cols_visit [of lm'] vis b)
  next
    case blocked_block
    note b = same_view_block [OF v visits_in_map [OF blocked_block(1)]]
    from blocked_block cols.IH(5) v show ?thesis by (simp add: octant_cols_visit [of lm'] vis b)
  next
    case blocked_open
    note b = same_view_block [OF v visits_in_map [OF blocked_open(1)]]
    from blocked_open cols.IH(6) v show ?thesis by (simp add: octant_cols_visit [of lm'] vis b)
  next
    case open_block
    note b = same_view_block [OF v visits_in_map [OF open_block(1)]]
    note sub = cols.IH(7) [OF open_block(1-4) v]
    note rest = cols.IH(8) [OF open_block(1-4) _ v]
    from open_block sub rest show ?thesis
      by (simp add: octant_cols_visit [of lm'] vis b split: sum.splits)
  next
    case (open_pass b)
    note bl = same_view_block [OF v visits_in_map [OF open_pass(1)]]
    from open_pass cols.IH(9) v show ?thesis by (auto simp: octant_cols_visit [of lm'] vis bl)
  qed
next
  case (row_end lm position en ls xx xy yx yy idn i start newStart blocked)
  then show ?case
    by (subst (1 2) octant_row_end.simps) auto
qed

subsection \<open>The write back loop\<close>

lemma lit_tile_twice [simp]: "lit_tile v (lit_tile w t) = lit_tile v t"
  by (simp add: lit_tile_def)

lemma write_tile_Inr:
  "write_tile ts x y v = Inr ts' \<longleftrightarrow>
     (\<exists>t. tile_at ts x y = Some t \<and> ts' = ts[nat x := (ts ! nat x)[nat y := lit_tile v t]])"
  by (auto simp: write_tile_def lit_tile_def split: option.splits)

lemma tile_at_write_tile:
  assumes "write_tile ts x y v = Inr ts'"
  shows "tile_at ts' x' y' =
           (if x' = x \<and> y' = y then map_option (lit_tile v) (tile_at ts x y) else tile_at ts x' y')"
proof -
  from assms obtain t where t: "tile_at ts x y = Some t"
    and ts': "ts' = ts[nat x := (ts ! nat x)[nat y := lit_tile v t]]"
    by (auto simp: write_tile_Inr)
  from t have x: "0 \<le> x" "nat x < length ts" and y: "0 \<le> y" "nat y < length (ts ! nat x)"
    and tv: "ts ! nat x ! nat y = t"
    and xi: "x < int (length ts)" and yi: "y < int (length (ts ! nat x))"
    by (auto simp: tile_at_def split: if_splits)
  have len: "length ts' = length ts" by (simp add: ts')
  have col: "ts' ! nat x = (ts ! nat x)[nat y := lit_tile v t]"
    using x by (simp add: ts')
  have other: "ts' ! n = ts ! n" if "n \<noteq> nat x" for n
    using that by (simp add: ts')
  show ?thesis
  proof (cases "x' = x")
    case True
    show ?thesis
    proof (cases "y' = y")
      case True
      with \<open>x' = x\<close> x y xi yi show ?thesis
        by (simp add: t) (simp add: tile_at_def len col)
    next
      case False
      have "nat y' \<noteq> nat y" if "0 \<le> y'"
        using that False y by auto
      with \<open>x' = x\<close> False x y xi yi show ?thesis
        by (auto simp: tile_at_def len col)
    qed
  next
    case False
    have "nat x' \<noteq> nat x" if "0 \<le> x'"
      using that False x by auto
    with False show ?thesis
      by (auto simp: tile_at_def len other)
  qed
qed

lemma tile_at_write_all:
  "write_all ts es = Inr ts' \<Longrightarrow>
   tile_at ts' x y =
     (case last_write es x y of
        None \<Rightarrow> tile_at ts x y
      | Some v \<Rightarrow> map_option (lit_tile v) (tile_at ts x y))"
proof (induction es arbitrary: ts)
  case Nil
  then show ?case by simp
next
  case (Cons t es)
  from Cons.prems obtain ts1 where
    w: "write_tile ts (lx t) (ly t) (level t) = Inr ts1" and r: "write_all ts1 es = Inr ts'"
    by (auto split: sum.splits)
  note a = tile_at_write_tile [OF w, of x y]
  from Cons.IH [OF r] a show ?case
    by (cases "tile_at ts x y") (auto split: option.splits)
qed

lemma write_all_defined:
  "write_all ts es = Inr ts' \<Longrightarrow> t \<in> set es \<Longrightarrow> tile_at ts (lx t) (ly t) \<noteq> None"
proof (induction es arbitrary: ts)
  case Nil
  then show ?case by simp
next
  case (Cons u es)
  from Cons.prems(1) obtain ts1 where
    w: "write_tile ts (lx u) (ly u) (level u) = Inr ts1" and r: "write_all ts1 es = Inr ts'"
    by (auto split: sum.splits)
  show ?case
  proof (cases "t = u")
    case True
    with w show ?thesis by (auto simp: write_tile_Inr)
  next
    case False
    with Cons.prems(2) have "t \<in> set es" by simp
    from Cons.IH [OF r this] tile_at_write_tile [OF w, of "lx t" "ly t"] show ?thesis
      by (auto split: if_splits)
  qed
qed

lemma write_all_succeeds:
  "(\<forall>t\<in>set es. tile_at ts (lx t) (ly t) \<noteq> None) \<Longrightarrow> \<exists>ts'. write_all ts es = Inr ts'"
proof (induction es arbitrary: ts)
  case Nil
  then show ?case by simp
next
  case (Cons u es)
  from Cons.prems obtain ts1 where w: "write_tile ts (lx u) (ly u) (level u) = Inr ts1"
    by (auto simp: write_tile_Inr)
  have "\<forall>t\<in>set es. tile_at ts1 (lx t) (ly t) \<noteq> None"
    using Cons.prems tile_at_write_tile [OF w] by auto
  from Cons.IH [OF this] w show ?case by auto
qed

lemma write_tile_shape:
  "write_tile ts x y v = Inr ts' \<Longrightarrow> map length ts' = map length ts"
  by (auto simp: write_tile_Inr tile_at_def map_update list_update_same_conv split: if_splits)

lemma write_all_shape:
  "write_all ts es = Inr ts' \<Longrightarrow> map length ts' = map length ts"
proof (induction es arbitrary: ts)
  case Nil
  then show ?case by simp
next
  case (Cons u es)
  then show ?case
    by (auto split: sum.splits dest!: write_tile_shape)
qed

lemma last_write_append:
  "last_write (es @ fs) x y =
     (case last_write fs x y of Some v \<Rightarrow> Some v | None \<Rightarrow> last_write es x y)"
  by (induction es) (auto split: option.splits)

lemma last_write_None: "last_write es x y = None \<longleftrightarrow> (\<forall>t\<in>set es. \<not> (lx t = x \<and> ly t = y))"
  by (induction es) (auto split: option.splits)

lemma last_write_Some:
  "last_write es x y = Some v \<Longrightarrow> \<exists>t\<in>set es. lx t = x \<and> ly t = y \<and> level t = v"
  by (induction es) (auto split: option.splits if_splits)

lemma last_write_zeroed:
  "last_write (map (\<lambda>t. t\<lparr> level := 0 \<rparr>) es) x y = map_option (\<lambda>_. 0) (last_write es x y)"
  by (induction es) (auto split: option.splits)

subsection \<open>The eight octants\<close>

text \<open>Each column of \<^verbatim>\<open>mult\<close> preserves the squared distance from the source.\<close>

lemma below_8: "(j::nat) < 8 \<Longrightarrow> j = 0 \<or> j = 1 \<or> j = 2 \<or> j = 3 \<or> j = 4 \<or> j = 5 \<or> j = 6 \<or> j = 7"
  by arith

lemma mult_isometry:
  assumes "j < 8"
  shows "dist2 position (tileX position (mult ! 0 ! j) (mult ! 1 ! j) dx dy)
           (tileY position (mult ! 2 ! j) (mult ! 3 ! j) dx dy) = dx * dx + dy * dy"
  using below_8 [OF assms]
  by (elim disjE) (simp_all add: mult_def dist2_def tileX_def tileY_def)

lemma lit_entry_lit_by:
  assumes "j < 8"
    and "lit_entry lm position ls (mult ! 0 ! j) (mult ! 1 ! j) (mult ! 2 ! j) (mult ! 3 ! j) 1 t"
  shows "lit_by lm position ls t"
proof -
  from assms(2) obtain dx dy where
    r: "(1::rat) < radius ls + 1" and m: "in_map lm (lx t) (ly t)"
    and v: "level t = (if gradient ls = False then 1
                else 1 - of_int (dist2 position (lx t) (ly t)) / (radius ls * radius ls))"
    and x: "lx t = tileX position (mult ! 0 ! j) (mult ! 1 ! j) dx dy"
    and y: "ly t = tileY position (mult ! 2 ! j) (mult ! 3 ! j) dx dy"
    and d: "of_int (dx * dx + dy * dy) < radius ls * radius ls"
    by (auto simp: lit_entry_def)
  have "dist2 position (lx t) (ly t) = dx * dx + dy * dy"
    unfolding x y by (rule mult_isometry [OF assms(1)])
  with r m v d show ?thesis by (simp add: lit_by_def)
qed

lemma calculate_loop_entries:
  "calculate_loop lm ls position k = Inr ps
   \<Longrightarrow> \<forall>t\<in>set ps. placeholder position t \<or> lit_by lm position ls t"
proof (induction lm ls position k arbitrary: ps rule: calculate_loop.induct)
  case (1 lm ls position k)
  show ?case
  proof (cases "k < 8")
    case False
    with "1.prems" show ?thesis by (subst (asm) calculate_loop.simps) simp
  next
    case True
    with "1.prems" obtain ts rest where
      ts: "calculateOctant lm position 1 1 0 ls (mult ! 0 ! k) (mult ! 1 ! k) (mult ! 2 ! k)
             (mult ! 3 ! k) 0 = Inr ts"
      and rest: "calculate_loop lm ls position (k + 1) = Inr rest" and ps: "ps = ts @ rest"
      by (subst (asm) calculate_loop.simps) (auto simp: then_push_Inr split: sum.splits)
    from octant_scanned(1) [OF ts] lit_entry_lit_by [OF True]
    have "\<forall>t\<in>set ts. placeholder position t \<or> lit_by lm position ls t"
      unfolding scanned_def by blast
    with "1.IH" [OF True ts rest] ps show ?thesis by auto
  qed
qed

lemma calculate_loop_succeeds:
  "grid_ok lm \<Longrightarrow> \<exists>ps. calculate_loop lm ls position k = Inr ps"
proof (induction lm ls position k rule: calculate_loop.induct)
  case (1 lm ls position k)
  show ?case
  proof (cases "k < 8")
    case False
    then show ?thesis by (subst calculate_loop.simps) simp
  next
    case True
    from octant_succeeds(1) [OF "1.prems"] obtain ts where
      ts: "calculateOctant lm position 1 1 0 ls (mult ! 0 ! k) (mult ! 1 ! k) (mult ! 2 ! k)
             (mult ! 3 ! k) 0 = Inr ts"
      by blast
    from "1.IH" [OF True ts "1.prems"] True ts show ?thesis
      by (subst calculate_loop.simps) (auto simp: then_push_Inr)
  qed
qed

lemma calculate_loop_same_view:
  "same_view lm lm' \<Longrightarrow> calculate_loop lm' ls position k = calculate_loop lm ls position k"
proof (induction lm ls position k rule: calculate_loop.induct)
  case (1 lm ls position k)
  show ?case
  proof (cases "k < 8")
    case False
    then show ?thesis by (subst (1 2) calculate_loop.simps) simp
  next
    case True
    note oct = octant_same_view(1) [OF "1.prems"]
    show ?thesis
    proof (cases "calculateOctant lm position 1 1 0 ls (mult ! 0 ! k) (mult ! 1 ! k) (mult ! 2 ! k)
             (mult ! 3 ! k) 0")
      case (Inl e)
      with True oct show ?thesis by (subst (1 2) calculate_loop.simps) simp
    next
      case (Inr ts)
      with True oct "1.IH" [OF True Inr "1.prems"] show ?thesis
        by (subst (1 2) calculate_loop.simps) simp
    qed
  qed
qed

subsection \<open>One entity\<close>

lemma doesTileBlock_cong:
  "(\<And>x y. map_option blockLight (tile_at (map_tiles (lm_game lm')) x y)
       = map_option blockLight (tile_at (map_tiles (lm_game lm)) x y))
   \<Longrightarrow> doesTileBlock lm' X Y = doesTileBlock lm X Y"
proof -
  assume a: "\<And>x y. map_option blockLight (tile_at (map_tiles (lm_game lm')) x y)
       = map_option blockLight (tile_at (map_tiles (lm_game lm)) x y)"
  from a [of X Y] show ?thesis
    by (cases "tile_at (map_tiles (lm_game lm')) X Y"; cases "tile_at (map_tiles (lm_game lm)) X Y")
       (simp_all add: doesTileBlock_def)
qed

lemma same_view_tiles [simp]: "same_view lm (lm\<lparr> tiles := ts \<rparr>)"
  by (simp add: same_view_def doesTileBlock_def)

lemma same_view_tilesLit [simp]: "same_view lm (lm\<lparr> tilesLit := b \<rparr>)"
  by (simp add: same_view_def doesTileBlock_def)

lemma same_view_refl [simp]: "same_view lm lm"
  by (simp add: same_view_def)

lemma same_view_trans: "same_view a b \<Longrightarrow> same_view b c \<Longrightarrow> same_view a c"
  by (simp add: same_view_def in_map_def)

lemma calculate_Inr:
  "calculate lm ls position = Inr (new, lm') \<longleftrightarrow>
     (\<exists>ps. calculate_loop lm ls position 0 = Inr ps \<and>
        new = tiles lm @ ps @ [source_tile position] \<and> lm' = lm\<lparr> tiles := new \<rparr>)"
  by (auto simp: calculate_def Let_def source_tile_def split: sum.splits)

lemma handleSingleEntity_Inr:
  "handleSingleEntity lm e = Inr lm' \<longleftrightarrow>
     (\<exists>ps ts'.
        calculate_loop lm (lightSourceComponent e) (positionComponent e) 0 = Inr ps \<and>
        write_all (map_tiles (lm_game lm))
          (zeroed (tiles lm) @ ps @ [source_tile (positionComponent e)]) = Inr ts' \<and>
        lm' = lm\<lparr> tiles := ps @ [source_tile (positionComponent e)],
                  lm_game := (lm_game lm)\<lparr> map_tiles := ts' \<rparr> \<rparr>)"
proof -
  have c: "calculate_loop (lm\<lparr> tiles := [] \<rparr>) (lightSourceComponent e) (positionComponent e) 0
         = calculate_loop lm (lightSourceComponent e) (positionComponent e) 0"
    by (rule calculate_loop_same_view) simp
  show ?thesis
  proof (cases "calculate (lm\<lparr> tiles := [] \<rparr>) (lightSourceComponent e) (positionComponent e)")
    case (Inl err)
    then have "\<nexists>ps. calculate_loop lm (lightSourceComponent e) (positionComponent e) 0 = Inr ps"
      unfolding c [symmetric] by (auto simp: calculate_def Let_def split: sum.splits)
    with Inl show ?thesis
      by (simp add: handleSingleEntity_def clear_def)
  next
    case (Inr r)
    obtain new lm2 where r: "r = (new, lm2)" by (cases r)
    from Inr [unfolded r calculate_Inr c] obtain ps where
      ps: "calculate_loop lm (lightSourceComponent e) (positionComponent e) 0 = Inr ps"
      and new: "new = ps @ [source_tile (positionComponent e)]"
      and lm2: "lm2 = lm\<lparr> tiles := new \<rparr>"
      by auto
    show ?thesis
      using Inr ps
      by (auto simp: handleSingleEntity_def clear_def r new lm2 zeroed_def split: sum.splits)
  qed
qed

lemma intensity_source [simp]: "intensity ls position (vx position) (vy position) = 1"
  by (simp add: intensity_def dist2_def)

lemma lit_by_level: "lit_by lm position ls t \<Longrightarrow> level t = intensity ls position (lx t) (ly t)"
  by (simp add: lit_by_def intensity_def)

lemma last_write_snoc:
  "last_write (es @ [t]) x y = (if lx t = x \<and> ly t = y then Some (level t) else last_write es x y)"
  by (simp add: last_write_append)

text \<open>What one source's entries write, coordinate by coordinate.\<close>

lemma last_write_scan:
  assumes ps: "\<forall>t\<in>set ps. placeholder position t \<or> lit_by lm position ls t"
    and t: "t \<in> set (ps @ [source_tile position])"
  shows "last_write (ps @ [source_tile position]) (lx t) (ly t)
           = Some (intensity ls position (lx t) (ly t))"
proof (cases "lx t = vx position \<and> ly t = vy position")
  case True
  then show ?thesis by (simp add: last_write_snoc source_tile_def)
next
  case False
  with t have tp: "t \<in> set ps" by (auto simp: source_tile_def)
  then have "last_write ps (lx t) (ly t) \<noteq> None"
    by (auto simp: last_write_None)
  then obtain v where v: "last_write ps (lx t) (ly t) = Some v" by auto
  from last_write_Some [OF v] obtain u where
    u: "u \<in> set ps" "lx u = lx t" "ly u = ly t" "level u = v" by auto
  from ps u False have "lit_by lm position ls u" by (auto simp: placeholder_def)
  with u have "v = intensity ls position (lx t) (ly t)" by (auto dest: lit_by_level)
  with v False show ?thesis by (auto simp: last_write_snoc source_tile_def)
qed

lemma scan_level:
  assumes ps: "\<forall>t\<in>set ps. placeholder position t \<or> lit_by lm position ls t"
    and t: "t \<in> set (ps @ [source_tile position])" and nz: "level t \<noteq> 0"
  shows "level t = intensity ls position (lx t) (ly t)"
proof -
  from t consider "t = source_tile position" | "t \<in> set ps" by auto
  then show ?thesis
  proof cases
    case 1
    then show ?thesis by (simp add: source_tile_def)
  next
    case 2
    with ps nz have "lit_by lm position ls t" by (auto simp: placeholder_def)
    then show ?thesis by (rule lit_by_level)
  qed
qed

text \<open>The map after one entity.\<close>

lemma handle_tile_at:
  assumes "handleSingleEntity lm e = Inr lm'"
  shows "tile_at (map_tiles (lm_game lm')) x y =
           (case last_write (zeroed (tiles lm) @ tiles lm') x y of
              None \<Rightarrow> tile_at (map_tiles (lm_game lm)) x y
            | Some v \<Rightarrow> map_option (lit_tile v) (tile_at (map_tiles (lm_game lm)) x y))"
  using assms by (auto simp: handleSingleEntity_Inr dest!: tile_at_write_all [where x = x and y = y])

lemma handle_written:
  assumes "handleSingleEntity lm e = Inr lm'" and "t \<in> set (tiles lm')"
  shows "tile_at (map_tiles (lm_game lm)) (lx t) (ly t) \<noteq> None"
proof -
  from assms(1) obtain ps ts' where
    w: "write_all (map_tiles (lm_game lm))
          (zeroed (tiles lm) @ ps @ [source_tile (positionComponent e)]) = Inr ts'"
    and new: "tiles lm' = ps @ [source_tile (positionComponent e)]"
    by (auto simp: handleSingleEntity_Inr)
  from assms(2) have "t \<in> set (zeroed (tiles lm) @ ps @ [source_tile (positionComponent e)])"
    by (auto simp: new)
  from write_all_defined [OF w this] show ?thesis .
qed

lemma handle_entries:
  assumes "handleSingleEntity lm e = Inr lm'"
  shows "\<exists>ps. calculate_loop lm (lightSourceComponent e) (positionComponent e) 0 = Inr ps \<and>
           tiles lm' = ps @ [source_tile (positionComponent e)] \<and>
           (\<forall>t\<in>set ps. placeholder (positionComponent e) t
                         \<or> lit_by lm (positionComponent e) (lightSourceComponent e) t)"
proof -
  from assms obtain ps where
    ps: "calculate_loop lm (lightSourceComponent e) (positionComponent e) 0 = Inr ps"
    and new: "tiles lm' = ps @ [source_tile (positionComponent e)]"
    by (auto simp: handleSingleEntity_Inr)
  from calculate_loop_entries [OF ps] ps new show ?thesis by blast
qed

lemma handle_lightLevel:
  assumes h: "handleSingleEntity lm e = Inr lm'" and t: "t \<in> set (tiles lm')"
  shows "lightLevel_at lm' (lx t) (ly t)
           = Some (intensity (lightSourceComponent e) (positionComponent e) (lx t) (ly t))"
proof -
  from handle_entries [OF h] obtain ps where
    new: "tiles lm' = ps @ [source_tile (positionComponent e)]"
    and ps: "\<forall>t\<in>set ps. placeholder (positionComponent e) t
                         \<or> lit_by lm (positionComponent e) (lightSourceComponent e) t"
    by blast
  from t have lw: "last_write (tiles lm') (lx t) (ly t)
      = Some (intensity (lightSourceComponent e) (positionComponent e) (lx t) (ly t))"
    unfolding new by (intro last_write_scan [OF ps]) simp
  from handle_written [OF h t] obtain old where
    old: "tile_at (map_tiles (lm_game lm)) (lx t) (ly t) = Some old" by auto
  from handle_tile_at [OF h, of "lx t" "ly t"] lw old show ?thesis
    by (simp add: lightLevel_at_def last_write_append lit_tile_def)
qed

lemma handle_frame:
  assumes "handleSingleEntity lm e = Inr lm'"
  shows "mapSize lm' = mapSize lm" "tilesLit lm' = tilesLit lm"
    "isActive (lm_game lm') = isActive (lm_game lm)"
    "entities (lm_game lm') = entities (lm_game lm)"
  using assms by (auto simp: handleSingleEntity_Inr)

lemma handle_blockLight:
  assumes h: "handleSingleEntity lm e = Inr lm'"
  shows "map_option blockLight (tile_at (map_tiles (lm_game lm')) x y)
       = map_option blockLight (tile_at (map_tiles (lm_game lm)) x y)"
  unfolding handle_tile_at [OF h]
  by (cases "tile_at (map_tiles (lm_game lm)) x y") (auto simp: lit_tile_def split: option.splits)

lemma handle_same_view:
  assumes h: "handleSingleEntity lm e = Inr lm'"
  shows "same_view lm lm'"
  unfolding same_view_def
  using handle_frame(1) [OF h] doesTileBlock_cong [of lm' lm, OF handle_blockLight [OF h]]
  by simp

lemma handle_explored:
  assumes h: "handleSingleEntity lm e = Inr lm'" and "explored_at lm x y = Some True"
  shows "explored_at lm' x y = Some True"
  using assms(2) unfolding explored_at_def handle_tile_at [OF h]
  by (auto simp: lit_tile_def split: option.splits)

subsection \<open>The loop over the entities and the tick\<close>

lemma update_loop_append:
  "update_loop lm (es @ fs) =
     (case update_loop lm es of Inl err \<Rightarrow> Inl err | Inr lm' \<Rightarrow> update_loop lm' fs)"
  by (induction es arbitrary: lm) (auto split: sum.splits)

lemma update_loop_same_view:
  "update_loop lm es = Inr lm' \<Longrightarrow> same_view lm lm'"
proof (induction es arbitrary: lm)
  case Nil
  then show ?case by simp
next
  case (Cons e es)
  then show ?case
    by (auto split: sum.splits intro: same_view_trans dest!: handle_same_view)
qed

lemma update_loop_explored:
  "update_loop lm es = Inr lm' \<Longrightarrow> explored_at lm x y = Some True \<Longrightarrow> explored_at lm' x y = Some True"
proof (induction es arbitrary: lm)
  case Nil
  then show ?case by simp
next
  case (Cons e es)
  then show ?case
    by (auto split: sum.splits dest: handle_explored)
qed

lemma update_explored:
  "update lm = Inr lm' \<Longrightarrow> explored_at lm x y = Some True \<Longrightarrow> explored_at lm' x y = Some True"
  by (auto simp: update_def clear_def explored_at_def split: if_splits sum.splits
      dest!: update_loop_explored [where x = x and y = y])

text \<open>
  Claim C6. The \<^verbatim>\<open>explored\<close> flag of a tile is monotone: over any sequence of ticks, active
  or idle and with any entities, a tile that is explored before the ticks is explored after
  them. (The only write to \<^verbatim>\<open>explored\<close> is the assignment of \<^verbatim>\<open>true\<close> in \<open>write_tile\<close>;
  \<^verbatim>\<open>clear\<close> and \<^verbatim>\<open>calculate\<close> leave the map alone.)
\<close>

theorem explored_monotone:
  "ticks lm inps = Inr lm' \<Longrightarrow> explored_at lm x y = Some True \<Longrightarrow> explored_at lm' x y = Some True"
proof (induction inps arbitrary: lm)
  case Nil
  then show ?case by simp
next
  case (Cons inp inps)
  obtain active es where inp: "inp = (active, es)" by (cases inp)
  let ?lm = "lm\<lparr> lm_game := (lm_game lm)\<lparr> isActive := active, entities := es \<rparr> \<rparr>"
  from Cons.prems(1) obtain lm1 where u: "update ?lm = Inr lm1" and r: "ticks lm1 inps = Inr lm'"
    by (auto simp: inp split: sum.splits)
  from Cons.prems(2) have "explored_at ?lm x y = Some True"
    by (simp add: explored_at_def)
  from Cons.IH [OF r update_explored [OF u this]] show ?case .
qed

theorem explored_monotone_witness:
  "explored_at (LightMap explored_game) 0 0 = Some True \<and>
   result_explored (ticks (LightMap explored_game) [(True, [scenario_source]), (False, [])]) 0 0
     = Some True"
proof -
  have h: "explored_at (LightMap explored_game) 0 0 = Some True"
    by code_simp
  have "\<not> isl (ticks (LightMap explored_game) [(True, [scenario_source]), (False, [])])"
    by code_simp
  then obtain lm' where
    r: "ticks (LightMap explored_game) [(True, [scenario_source]), (False, [])] = Inr lm'"
    by (cases "ticks (LightMap explored_game) [(True, [scenario_source]), (False, [])]") auto
  from explored_monotone [OF r h] h r show ?thesis
    by (simp add: result_explored_def)
qed

text \<open>
  Claim C10. A tick while the game is inactive modifies no tile: \<^verbatim>\<open>update\<close> returns
  normally and the game, with every \<^verbatim>\<open>lightLevel\<close>, \<^verbatim>\<open>explored\<close> and \<^verbatim>\<open>blockLight\<close> of the
  map, is what it was. With \<^verbatim>\<open>tilesLit\<close> set, \<^verbatim>\<open>clear\<close> zeroes and drops the buffer only.
\<close>

theorem idle_tick_frame:
  "\<not> isActive (lm_game lm) \<Longrightarrow> \<exists>lm'. update lm = Inr lm' \<and> lm_game lm' = lm_game lm"
  by (simp add: update_def clear_def)

theorem idle_tick_frame_witness:
  "\<not> isActive (lm_game idle_state) \<and>
   (\<exists>lm'. update idle_state = Inr lm' \<and> lm_game lm' = lm_game idle_state)"
  using idle_tick_frame [of idle_state] by (simp add: idle_state_def)

text \<open>
  Claim C1, evaluated. The scene is lit by one active tick; the next tick finds the game
  inactive with \<^verbatim>\<open>tilesLit\<close> set. After it the source tile (2, 2), lit to 1 by the active
  pass, still has \<^verbatim>\<open>lightLevel\<close> 1 in the map, where the claim requires 0: the idle branch
  of \<^verbatim>\<open>update\<close> calls \<^verbatim>\<open>clear\<close> and drops the zeroed buffer it returns, while
  \<^verbatim>\<open>handleSingleEntity\<close> writes that buffer into the map.
\<close>

theorem deactivation_keeps_light:
  "result_lightLevel (ticks (LightMap scenario_game) [(True, [scenario_source])]) 2 2 = Some 1 \<and>
   result_lightLevel
     (ticks (LightMap scenario_game) [(True, [scenario_source]), (False, [scenario_source])]) 2 2
     = Some 1"
  by code_simp

subsection \<open>Radius, levels and the last source\<close>

lemma scan_within_radius:
  assumes "calculate_loop lm ls position 0 = Inr ps" and "t \<in> set ps" and "level t \<noteq> 0"
  shows "0 < radius ls"
    and "of_int (dist2 position (lx t) (ly t)) < radius ls * radius ls"
  using calculate_loop_entries [OF assms(1)] assms(2,3)
  by (auto simp: placeholder_def lit_by_def)

text \<open>
  Claim C4. No entry that the eight octant scans of a source push with a nonzero
  \<^verbatim>\<open>lightLevel\<close> lies at a Euclidean distance from the source that exceeds the radius: the
  distance is even strictly below the radius. (The tile of the source itself, at distance 0,
  is pushed by \<^verbatim>\<open>calculate\<close> after the scans.)
\<close>

theorem radius_bound:
  assumes "calculate_loop lm ls position 0 = Inr ps" and "t \<in> set ps" and "level t \<noteq> 0"
  shows "sqrt (real_of_int (dist2 position (lx t) (ly t))) < real_of_rat (radius ls)"
proof -
  note r = scan_within_radius [OF assms]
  from r(1) have pos: "0 < real_of_rat (radius ls)"
    by simp
  from r(2) have "real_of_rat (of_int (dist2 position (lx t) (ly t)))
                    < real_of_rat (radius ls * radius ls)"
    by (simp only: of_rat_less)
  then have "real_of_int (dist2 position (lx t) (ly t)) < (real_of_rat (radius ls))\<^sup>2"
    by (simp add: of_rat_mult power2_eq_square)
  with pos show ?thesis
    by (intro real_less_lsqrt) simp_all
qed

theorem radius_bound_witness:
  "\<not> isl (calculate_loop (LightMap scenario_game) \<lparr> radius = 2, gradient = False \<rparr>
            \<lparr> vx = 2, vy = 2 \<rparr> 0) \<and>
   \<lparr> lx = 2, ly = 1, level = 1 \<rparr>
     \<in> set (projr (calculate_loop (LightMap scenario_game) \<lparr> radius = 2, gradient = False \<rparr>
                     \<lparr> vx = 2, vy = 2 \<rparr> 0)) \<and>
   sqrt (real_of_int (dist2 \<lparr> vx = 2, vy = 2 \<rparr> 2 1)) < real_of_rat 2"
proof -
  let ?r = "calculate_loop (LightMap scenario_game) \<lparr> radius = 2, gradient = False \<rparr>
              \<lparr> vx = 2, vy = 2 \<rparr> 0"
  have ok: "\<not> isl ?r" by code_simp
  have mem: "\<lparr> lx = 2, ly = 1, level = 1 \<rparr> \<in> set (projr ?r)" by code_simp
  from ok have r: "?r = Inr (projr ?r)" by (cases ?r) auto
  from radius_bound [OF r mem] ok mem show ?thesis by simp
qed

text \<open>
  Claim C5. After the write back of one entity, every tile that its scan recorded, other
  than the tile of the source, has \<^verbatim>\<open>lightLevel\<close> 1 when \<^verbatim>\<open>gradient\<close> is false and
  \<open>1 - d\<^sup>2 / radius\<^sup>2\<close> otherwise, \<open>d\<^sup>2\<close> being its squared distance from the source; and the
  tile of the source has \<^verbatim>\<open>lightLevel\<close> 1. The buffer after the call is what the scan recorded.
\<close>

theorem gradient_vs_flat:
  assumes "handleSingleEntity lm e = Inr lm'"
  shows "lightLevel_at lm' (vx (positionComponent e)) (vy (positionComponent e)) = Some 1 \<and>
         (\<forall>t\<in>set (tiles lm').
            (lx t, ly t) \<noteq> (vx (positionComponent e), vy (positionComponent e)) \<longrightarrow>
            lightLevel_at lm' (lx t) (ly t) =
              Some (if gradient (lightSourceComponent e) = False then 1
                    else 1 - of_int (dist2 (positionComponent e) (lx t) (ly t))
                             / (radius (lightSourceComponent e) * radius (lightSourceComponent e))))"
proof -
  from handle_entries [OF assms] have "source_tile (positionComponent e) \<in> set (tiles lm')"
    by auto
  from handle_lightLevel [OF assms this]
  have src: "lightLevel_at lm' (vx (positionComponent e)) (vy (positionComponent e)) = Some 1"
    by (simp add: source_tile_def)
  from handle_lightLevel [OF assms] have
    "\<forall>t\<in>set (tiles lm'). lightLevel_at lm' (lx t) (ly t) =
        Some (if gradient (lightSourceComponent e) = False then 1
              else 1 - of_int (dist2 (positionComponent e) (lx t) (ly t))
                       / (radius (lightSourceComponent e) * radius (lightSourceComponent e)))"
    by (simp add: intensity_def)
  with src show ?thesis by blast
qed

theorem gradient_vs_flat_witness:
  "\<not> isl (handleSingleEntity (LightMap scenario_game) gradient_source) \<and>
   \<lparr> lx = 2, ly = 1, level = 3 / 4 \<rparr>
     \<in> set (tiles (projr (handleSingleEntity (LightMap scenario_game) gradient_source))) \<and>
   lightLevel_at (projr (handleSingleEntity (LightMap scenario_game) gradient_source)) 2 2 = Some 1 \<and>
   lightLevel_at (projr (handleSingleEntity (LightMap scenario_game) gradient_source)) 2 1
     = Some (3 / 4)"
proof -
  let ?r = "handleSingleEntity (LightMap scenario_game) gradient_source"
  have ok: "\<not> isl ?r" by code_simp
  have mem: "\<lparr> lx = 2, ly = 1, level = 3 / 4 \<rparr> \<in> set (tiles (projr ?r))" by code_simp
  from ok have r: "?r = Inr (projr ?r)" by (cases ?r) auto
  from gradient_vs_flat [OF r] mem ok show ?thesis
    by (auto simp: gradient_source_def dist2_def)
qed

lemma handle_defined:
  assumes "handleSingleEntity lm e = Inr lm'"
  shows "tile_at (map_tiles (lm_game lm')) x y = None \<longleftrightarrow> tile_at (map_tiles (lm_game lm)) x y = None"
  unfolding handle_tile_at [OF assms] by (auto split: option.splits)

lemma update_active:
  assumes "isActive (lm_game lm)"
  shows "update lm = Inr lm' \<longleftrightarrow>
           (\<exists>h. update_loop lm (entities (lm_game lm)) = Inr h \<and> lm' = h\<lparr> tilesLit := True \<rparr>)"
  using assms by (auto simp: update_def split: sum.splits)

lemma relight_same_tiles:
  assumes h1: "handleSingleEntity lm e = Inr lm1" and v: "same_view lm lm1'"
    and m: "lm_game lm1' = lm_game lm1" and b: "tiles lm1' = tiles lm1"
  shows "\<exists>lm2. handleSingleEntity lm1' e = Inr lm2 \<and>
           (\<forall>x y. tile_at (map_tiles (lm_game lm2)) x y = tile_at (map_tiles (lm_game lm1)) x y)"
proof -
  let ?src = "source_tile (positionComponent e)"
  from handle_entries [OF h1] obtain ps where
    ps: "calculate_loop lm (lightSourceComponent e) (positionComponent e) 0 = Inr ps"
    and new: "tiles lm1 = ps @ [?src]"
    by blast
  have ps': "calculate_loop lm1' (lightSourceComponent e) (positionComponent e) 0 = Inr ps"
    using calculate_loop_same_view [OF v] ps by simp
  have "\<forall>t\<in>set (zeroed (tiles lm1') @ ps @ [?src]).
          tile_at (map_tiles (lm_game lm1')) (lx t) (ly t) \<noteq> None"
  proof
    fix t assume "t \<in> set (zeroed (tiles lm1') @ ps @ [?src])"
    then have "\<exists>u\<in>set (tiles lm1). lx u = lx t \<and> ly u = ly t"
      unfolding b new zeroed_def by force
    then obtain u where u: "u \<in> set (tiles lm1)" and c: "lx u = lx t" "ly u = ly t"
      by blast
    from handle_written [OF h1 u] handle_defined [OF h1, of "lx u" "ly u"] c m
    show "tile_at (map_tiles (lm_game lm1')) (lx t) (ly t) \<noteq> None"
      by simp
  qed
  from write_all_succeeds [OF this] obtain ts' where
    w: "write_all (map_tiles (lm_game lm1')) (zeroed (tiles lm1') @ ps @ [?src]) = Inr ts'"
    by blast
  define lm2 where "lm2 = lm1'\<lparr> tiles := ps @ [?src], lm_game := (lm_game lm1')\<lparr> map_tiles := ts' \<rparr> \<rparr>"
  from ps' w have h2: "handleSingleEntity lm1' e = Inr lm2"
    unfolding handleSingleEntity_Inr lm2_def by blast
  have "tile_at (map_tiles (lm_game lm2)) x y = tile_at (map_tiles (lm_game lm1)) x y" for x y
  proof -
    have t2: "tiles lm2 = tiles lm1" by (simp add: lm2_def new)
    note a2 = handle_tile_at [OF h2, of x y, unfolded t2 b m]
    note a1 = handle_tile_at [OF h1, of x y]
    show ?thesis
    proof (cases "last_write (tiles lm1) x y")
      case None
      with a2 show ?thesis
        by (simp add: last_write_append zeroed_def last_write_zeroed)
    next
      case (Some v)
      with a1 a2 show ?thesis
        by (cases "tile_at (map_tiles (lm_game lm)) x y") (simp_all add: last_write_append)
    qed
  qed
  with h2 show ?thesis by blast
qed

text \<open>
  Claim C7. With the game active and a single light source, a second relight tick right
  after a first one returns normally and leaves every tile with the \<^verbatim>\<open>lightLevel\<close> it had
  after the first. Neither tick changes \<^verbatim>\<open>blockLight\<close>, the source or its position.
\<close>

theorem relight_idempotent:
  assumes "isActive (lm_game lm)" and "entities (lm_game lm) = [e]" and "update lm = Inr lm1"
  shows "\<exists>lm2. update lm1 = Inr lm2 \<and> (\<forall>x y. lightLevel_at lm2 x y = lightLevel_at lm1 x y)"
proof -
  from assms obtain h1 where h1: "handleSingleEntity lm e = Inr h1"
    and lm1: "lm1 = h1\<lparr> tilesLit := True \<rparr>"
    by (auto simp: update_active split: sum.splits)
  have v: "same_view lm lm1"
    using same_view_trans [OF handle_same_view [OF h1] same_view_tilesLit [of h1 True]] lm1
    by simp
  from relight_same_tiles [OF h1 v] lm1 obtain h2 where
    h2: "handleSingleEntity lm1 e = Inr h2"
    and eq: "\<And>x y. tile_at (map_tiles (lm_game h2)) x y = tile_at (map_tiles (lm_game h1)) x y"
    by auto
  from assms(1,2) handle_frame(3,4) [OF h1] lm1
  have act: "isActive (lm_game lm1)" and ents: "entities (lm_game lm1) = [e]"
    by simp_all
  from h2 act ents have "update lm1 = Inr (h2\<lparr> tilesLit := True \<rparr>)"
    by (simp add: update_active)
  moreover have "lightLevel_at (h2\<lparr> tilesLit := True \<rparr>) x y = lightLevel_at lm1 x y" for x y
    by (simp add: lightLevel_at_def eq lm1)
  ultimately show ?thesis by blast
qed

theorem relight_idempotent_witness:
  "isActive (lm_game (LightMap scenario_game)) \<and>
   entities (lm_game (LightMap scenario_game)) = [scenario_source] \<and>
   \<not> isl (update (LightMap scenario_game)) \<and>
   (\<exists>lm2. update (projr (update (LightMap scenario_game))) = Inr lm2 \<and>
      (\<forall>x y. lightLevel_at lm2 x y = lightLevel_at (projr (update (LightMap scenario_game))) x y))"
proof -
  let ?r = "update (LightMap scenario_game)"
  have a: "isActive (lm_game (LightMap scenario_game))"
    and e: "entities (lm_game (LightMap scenario_game)) = [scenario_source]"
    by (simp_all add: LightMap_def scenario_game_def)
  have ok: "\<not> isl ?r" by code_simp
  then have r: "?r = Inr (projr ?r)" by (cases ?r) auto
  from relight_idempotent [OF a e r] a e ok show ?thesis by blast
qed

text \<open>
  Claim C8 as stated fails. In \<open>three_source_game\<close> the tile (2, 2) is lit by the first
  source with level 1 and by the second with level 3/4, and the third source, in the corner,
  does not record it. The tile ends the tick with \<^verbatim>\<open>lightLevel\<close> 0, the value of neither:
  the \<^verbatim>\<open>clear\<close> of the third entity returns the buffer of the second, zeroed, and the write
  back puts those zeros into the map.
\<close>

theorem later_source_clears_light:
  "\<lparr> lx = 2, ly = 2, level = 1 \<rparr>
     \<in> set (fst (projr (calculate (LightMap three_source_game)
                           (lightSourceComponent left_source) (positionComponent left_source)))) \<and>
   \<lparr> lx = 2, ly = 2, level = 3 / 4 \<rparr>
     \<in> set (fst (projr (calculate (LightMap three_source_game)
                           (lightSourceComponent right_source) (positionComponent right_source)))) \<and>
   last_write (fst (projr (calculate (LightMap three_source_game)
                             (lightSourceComponent far_source) (positionComponent far_source)))) 2 2
     = None \<and>
   result_lightLevel (update (LightMap three_source_game)) 2 2 = Some 0"
  by code_simp

text \<open>
  Claim C8, amended. In an active tick the last entity processed wins on the tiles it
  lights: a tile that the scan of the last entity of the tick records with a nonzero level
  \<open>v\<close> has \<^verbatim>\<open>lightLevel\<close> \<open>v\<close> after the tick, whatever the entities processed before it
  wrote there; nothing is accumulated, no maximum or sum is taken. The scan of the last
  entity is \<^verbatim>\<open>calculate\<close> on the map as it is before the tick (no tick changes \<^verbatim>\<open>blockLight\<close>).
\<close>

theorem last_source_wins:
  assumes "isActive (lm_game lm)" and "entities (lm_game lm) = es @ [e]"
    and "update lm = Inr lm'"
    and "calculate (lm\<lparr> tiles := [] \<rparr>) (lightSourceComponent e) (positionComponent e)
           = Inr (new, lm1)"
    and "t \<in> set new" and "level t \<noteq> 0"
  shows "lightLevel_at lm' (lx t) (ly t) = Some (level t)"
proof -
  from assms(1-3) obtain s h where s: "update_loop lm es = Inr s"
    and h: "handleSingleEntity s e = Inr h" and lm': "lm' = h\<lparr> tilesLit := True \<rparr>"
    by (auto simp: update_active update_loop_append split: sum.splits)
  from assms(4) obtain ps where
    ps0: "calculate_loop (lm\<lparr> tiles := [] \<rparr>) (lightSourceComponent e) (positionComponent e) 0
            = Inr ps"
    and new: "new = ps @ [source_tile (positionComponent e)]"
    by (auto simp: calculate_Inr)
  have ps: "calculate_loop lm (lightSourceComponent e) (positionComponent e) 0 = Inr ps"
    using calculate_loop_same_view [OF same_view_tiles [of lm "[]"]] ps0 by simp
  have pss: "calculate_loop s (lightSourceComponent e) (positionComponent e) 0 = Inr ps"
    using calculate_loop_same_view [OF update_loop_same_view [OF s]] ps by simp
  from handle_entries [OF h] pss have th: "tiles h = new"
    by (auto simp: new)
  with assms(5) have "t \<in> set (tiles h)" by simp
  note ll = handle_lightLevel [OF h this]
  from scan_level [OF calculate_loop_entries [OF ps] assms(5) [unfolded new] assms(6)] ll
  show ?thesis by (simp add: lightLevel_at_def lm')
qed

theorem last_source_wins_witness:
  "isActive (lm_game (LightMap two_source_game)) \<and>
   entities (lm_game (LightMap two_source_game)) = [left_source] @ [right_source] \<and>
   \<not> isl (update (LightMap two_source_game)) \<and>
   \<lparr> lx = 2, ly = 2, level = 1 \<rparr>
     \<in> set (fst (projr (calculate (LightMap two_source_game)
                           (lightSourceComponent left_source) (positionComponent left_source)))) \<and>
   \<lparr> lx = 2, ly = 2, level = 3 / 4 \<rparr>
     \<in> set (fst (projr (calculate ((LightMap two_source_game)\<lparr> tiles := [] \<rparr>)
                           (lightSourceComponent right_source) (positionComponent right_source)))) \<and>
   lightLevel_at (projr (update (LightMap two_source_game))) 2 2 = Some (3 / 4)"
proof -
  let ?lm = "LightMap two_source_game"
  let ?u = "update ?lm"
  let ?c = "calculate (?lm\<lparr> tiles := [] \<rparr>)
              (lightSourceComponent right_source) (positionComponent right_source)"
  have a: "isActive (lm_game ?lm)"
    and e: "entities (lm_game ?lm) = [left_source] @ [right_source]"
    by (simp_all add: LightMap_def two_source_game_def scenario_game_def)
  have ok: "\<not> isl ?u" by code_simp
  then have u: "?u = Inr (projr ?u)" by (cases ?u) auto
  have "\<not> isl ?c" by code_simp
  then have c: "?c = Inr (fst (projr ?c), snd (projr ?c))" by (cases ?c) auto
  have m: "\<lparr> lx = 2, ly = 2, level = 3 / 4 \<rparr> \<in> set (fst (projr ?c))" by code_simp
  have l: "\<lparr> lx = 2, ly = 2, level = 1 \<rparr>
     \<in> set (fst (projr (calculate ?lm
                           (lightSourceComponent left_source) (positionComponent left_source))))"
    by code_simp
  from last_source_wins [OF a e u c m] a e ok m l show ?thesis by simp
qed

subsection \<open>No access outside the grid\<close>

lemma grid_ok_shape:
  assumes "grid_ok lm" and "map length (map_tiles (lm_game lm')) = map length (map_tiles (lm_game lm))"
    and "mapSize lm' = mapSize lm"
  shows "grid_ok lm'"
proof -
  from assms(2) have l: "length (map_tiles (lm_game lm')) = length (map_tiles (lm_game lm))"
    by (rule map_eq_imp_length_eq)
  have "length col = nat (vy (mapSize lm))" if "col \<in> set (map_tiles (lm_game lm'))" for col
  proof -
    from that have "length col \<in> set (map length (map_tiles (lm_game lm')))" by simp
    with assms(2) have "length col \<in> set (map length (map_tiles (lm_game lm)))" by simp
    with assms(1) show ?thesis by (auto simp: grid_ok_def)
  qed
  with assms(1,3) l show ?thesis by (simp add: grid_ok_def)
qed

lemma handle_safe:
  assumes g: "grid_ok lm" and b: "buffer_ok lm"
    and p: "in_map lm (vx (positionComponent e)) (vy (positionComponent e))"
  shows "\<exists>lm'. handleSingleEntity lm e = Inr lm' \<and> grid_ok lm' \<and> buffer_ok lm'
           \<and> mapSize lm' = mapSize lm"
proof -
  let ?src = "source_tile (positionComponent e)"
  from calculate_loop_succeeds [OF g] obtain ps where
    ps: "calculate_loop lm (lightSourceComponent e) (positionComponent e) 0 = Inr ps"
    by blast
  have new: "in_map lm (lx t) (ly t)" if "t \<in> set (ps @ [?src])" for t
    using calculate_loop_entries [OF ps] that p
    by (auto simp: placeholder_def lit_by_def source_tile_def)
  have old: "in_map lm (lx t) (ly t)" if "t \<in> set (zeroed (tiles lm))" for t
    using that b by (auto simp: zeroed_def buffer_ok_def)
  have "\<forall>t\<in>set (zeroed (tiles lm) @ ps @ [?src]).
          tile_at (map_tiles (lm_game lm)) (lx t) (ly t) \<noteq> None"
  proof
    fix t assume "t \<in> set (zeroed (tiles lm) @ ps @ [?src])"
    then have "in_map lm (lx t) (ly t)" using new [of t] old [of t] by auto
    from grid_ok_tile_at [OF g this] show "tile_at (map_tiles (lm_game lm)) (lx t) (ly t) \<noteq> None"
      by auto
  qed
  from write_all_succeeds [OF this] obtain ts' where
    w: "write_all (map_tiles (lm_game lm)) (zeroed (tiles lm) @ ps @ [?src]) = Inr ts'"
    by blast
  define lm' where "lm' = lm\<lparr> tiles := ps @ [?src], lm_game := (lm_game lm)\<lparr> map_tiles := ts' \<rparr> \<rparr>"
  from ps w have h: "handleSingleEntity lm e = Inr lm'"
    unfolding handleSingleEntity_Inr lm'_def by blast
  have ms: "mapSize lm' = mapSize lm" by (simp add: lm'_def)
  have "grid_ok lm'"
    using write_all_shape [OF w] by (intro grid_ok_shape [OF g]) (simp_all add: lm'_def)
  moreover have "buffer_ok lm'"
    unfolding buffer_ok_def using new by (simp add: lm'_def in_map_def)
  ultimately show ?thesis using h ms by blast
qed

lemma update_loop_safe:
  assumes "grid_ok lm" and "buffer_ok lm"
    and "\<forall>e\<in>set es. in_map lm (vx (positionComponent e)) (vy (positionComponent e))"
  shows "\<exists>lm'. update_loop lm es = Inr lm' \<and> grid_ok lm' \<and> buffer_ok lm' \<and> mapSize lm' = mapSize lm"
  using assms
proof (induction es arbitrary: lm)
  case Nil
  then show ?case by simp
next
  case (Cons e es)
  from Cons.prems(3) have "in_map lm (vx (positionComponent e)) (vy (positionComponent e))"
    by simp
  from handle_safe [OF Cons.prems(1,2) this] obtain lm1 where
    h: "handleSingleEntity lm e = Inr lm1" and g: "grid_ok lm1" and b: "buffer_ok lm1"
    and m: "mapSize lm1 = mapSize lm"
    by blast
  from Cons.prems(3) m
  have "\<forall>e\<in>set es. in_map lm1 (vx (positionComponent e)) (vy (positionComponent e))"
    by (simp add: in_map_def)
  from Cons.IH [OF g b this] h m show ?case by auto
qed

lemma update_safe:
  assumes "grid_ok lm" and "buffer_ok lm"
    and "\<forall>e\<in>set (entities (lm_game lm)).
           in_map lm (vx (positionComponent e)) (vy (positionComponent e))"
  shows "\<exists>lm'. update lm = Inr lm' \<and> grid_ok lm' \<and> buffer_ok lm' \<and> mapSize lm' = mapSize lm"
proof (cases "isActive (lm_game lm)")
  case True
  from update_loop_safe [OF assms] obtain h where
    h: "update_loop lm (entities (lm_game lm)) = Inr h" and g: "grid_ok h" and b: "buffer_ok h"
    and m: "mapSize h = mapSize lm"
    by blast
  from g b m have "grid_ok (h\<lparr> tilesLit := True \<rparr>)" "buffer_ok (h\<lparr> tilesLit := True \<rparr>)"
    "mapSize (h\<lparr> tilesLit := True \<rparr>) = mapSize lm"
    by (simp_all add: grid_ok_def buffer_ok_def in_map_def)
  with True h show ?thesis by (simp add: update_active)
next
  case False
  with assms(1,2) show ?thesis
    by (auto simp: update_def clear_def grid_ok_def buffer_ok_def in_map_def)
qed

lemma ticks_safe:
  assumes "grid_ok lm" and "buffer_ok lm"
    and "\<forall>(active, es)\<in>set inps.
           \<forall>e\<in>set es. in_map lm (vx (positionComponent e)) (vy (positionComponent e))"
  shows "\<exists>lm'. ticks lm inps = Inr lm'"
  using assms
proof (induction inps arbitrary: lm)
  case Nil
  then show ?case by simp
next
  case (Cons inp inps)
  obtain active es where inp: "inp = (active, es)" by (cases inp)
  let ?lm = "lm\<lparr> lm_game := (lm_game lm)\<lparr> isActive := active, entities := es \<rparr> \<rparr>"
  from Cons.prems(1,2) have g: "grid_ok ?lm" and b: "buffer_ok ?lm"
    by (simp_all add: grid_ok_def buffer_ok_def in_map_def)
  from Cons.prems(3) have
    "\<forall>e\<in>set (entities (lm_game ?lm)). in_map ?lm (vx (positionComponent e)) (vy (positionComponent e))"
    by (simp add: inp in_map_def)
  from update_safe [OF g b this] obtain lm1 where
    u: "update ?lm = Inr lm1" and g1: "grid_ok lm1" and b1: "buffer_ok lm1"
    and m: "mapSize lm1 = mapSize lm"
    by auto
  from Cons.prems(3) m have
    "\<forall>(active, es)\<in>set inps.
       \<forall>e\<in>set es. in_map lm1 (vx (positionComponent e)) (vy (positionComponent e))"
    by (simp add: in_map_def)
  from Cons.IH [OF g1 b1 this] u show ?case by (simp add: inp)
qed

text \<open>
  Claim C9. Let the grid have the dimensions \<^verbatim>\<open>tilesX\<close> by \<^verbatim>\<open>tilesY\<close> that the map declares,
  and let every light source of every tick stand inside \<open>[0, tilesX) \<times> [0, tilesY)\<close>. Then no
  tick of a light map built on that game reads or writes a tile outside the grid: every
  tick returns normally, and \<^verbatim>\<open>TypeError\<close> is what an access outside the grid raises.
\<close>

theorem no_out_of_bounds:
  assumes "length (map_tiles g) = nat (tilesX g)"
    and "\<forall>col\<in>set (map_tiles g). length col = nat (tilesY g)"
    and "\<forall>(active, es)\<in>set inps. \<forall>e\<in>set es.
           0 \<le> vx (positionComponent e) \<and> vx (positionComponent e) < tilesX g \<and>
           0 \<le> vy (positionComponent e) \<and> vy (positionComponent e) < tilesY g"
  shows "\<exists>lm'. ticks (LightMap g) inps = Inr lm'"
proof (rule ticks_safe)
  from assms(1,2) show "grid_ok (LightMap g)"
    by (simp add: grid_ok_def LightMap_def)
  show "buffer_ok (LightMap g)"
    by (simp add: buffer_ok_def LightMap_def)
  from assms(3) show "\<forall>(active, es)\<in>set inps. \<forall>e\<in>set es.
      in_map (LightMap g) (vx (positionComponent e)) (vy (positionComponent e))"
    by (auto simp: in_map_def LightMap_def)
qed

theorem no_out_of_bounds_witness:
  "length (map_tiles scenario_game) = nat (tilesX scenario_game) \<and>
   list_all (\<lambda>col. length col = nat (tilesY scenario_game)) (map_tiles scenario_game) \<and>
   list_all (\<lambda>e. 0 \<le> vx (positionComponent e) \<and> vx (positionComponent e) < tilesX scenario_game \<and>
                 0 \<le> vy (positionComponent e) \<and> vy (positionComponent e) < tilesY scenario_game)
     [scenario_source, corner_source] \<and>
   (\<exists>lm'. ticks (LightMap scenario_game)
            [(True, [scenario_source, corner_source]), (False, []), (True, [corner_source])]
          = Inr lm')"
proof -
  have a: "length (map_tiles scenario_game) = nat (tilesX scenario_game)"
    by (simp add: scenario_game_def)
  have b: "\<forall>col\<in>set (map_tiles scenario_game). length col = nat (tilesY scenario_game)"
    by (simp add: scenario_game_def)
  have c: "\<forall>(active, es)\<in>set [(True, [scenario_source, corner_source]), (False, []), (True, [corner_source])].
      \<forall>e\<in>set es.
        0 \<le> vx (positionComponent e) \<and> vx (positionComponent e) < tilesX scenario_game \<and>
        0 \<le> vy (positionComponent e) \<and> vy (positionComponent e) < tilesY scenario_game"
    by (simp add: scenario_game_def scenario_source_def corner_source_def)
  from no_out_of_bounds [OF a b c] a b c show ?thesis
    by (simp add: list_all_iff)
qed

subsection \<open>The concrete scenes of the specification\<close>

text \<open>
  Claim C3 as stated fails: after the active tick on the 5 by 5 scene the corner tile (0, 0)
  is not explored, so not all 25 tiles are.
\<close>

theorem scenario_corner_unexplored:
  "result_explored (update (LightMap scenario_game)) 0 0 = Some False"
  by code_simp

text \<open>
  Claim C3, amended. After one active tick on the 5 by 5 open scene, source at (2, 2),
  radius 2, flat: every tile at squared distance below 4 from (2, 2) has \<^verbatim>\<open>lightLevel\<close> 1 and
  is explored, and every tile at squared distance 4 or more has \<^verbatim>\<open>lightLevel\<close> 0 and is still
  unexplored. Only the tiles that are written are marked explored: 9 of the 25.
\<close>

theorem scenario_after_tick:
  "result_tiles (update (LightMap scenario_game)) =
     Some (map (\<lambda>x. map (\<lambda>y. if (x - 2) * (x - 2) + (y - 2) * (y - 2) < 4
                             then \<lparr> blockLight = False, lightLevel = 1, explored = True \<rparr>
                             else \<lparr> blockLight = False, lightLevel = 0, explored = False \<rparr>)
                       [0 .. 4 :: int])
               [0 .. 4 :: int])"
  by code_simp

text \<open>
  Claim C2, evaluated. In \<open>leak_game\<close> the wall of row 12 separates the source at (0, 0)
  from the tile (4, 13) over the whole width of the map, and the tick leaves (4, 13) with
  \<^verbatim>\<open>lightLevel\<close> 1. In octant 4 the call for the wedge \<open>(1, 1/3)\<close> passes the wall tile (2, 5)
  and resumes with \<^verbatim>\<open>start = 3/11\<close>, below \<^verbatim>\<open>end = 1/3\<close>. The test \<^verbatim>\<open>start < end\<close> is made on
  entry only, so the rows go on with an empty wedge; in row 12 no tile straddles it and the
  wall is never inspected, in row 13 the tile (4, 13) straddles it and is lit.
\<close>

theorem light_leaks_through_wall:
  "map (\<lambda>col. blockLight (col ! 12)) (map_tiles leak_game) = [True, True, True, True, True] \<and>
   result_lightLevel (update (LightMap leak_game)) 4 13 = Some 1"
  by code_simp

text \<open>
  The concrete scene of claim C2 does hold: with the wall at (2, 3), the tile (2, 4) ends the
  tick with \<^verbatim>\<open>lightLevel\<close> 0 and the wall tile itself is lit. (At radius 2 the tile (2, 4), at
  squared distance 4, is dark without the wall as well.)
\<close>

lemma occlusion_scenario:
  "result_lightLevel (update (LightMap blocker_game)) 2 4 = Some 0 \<and>
   result_lightLevel (update (LightMap blocker_game)) 2 3 = Some 1"
  by code_simp

end
